theory Spec2Isabelle
  imports Complex_Main
begin

section \<open>Minimum description length encoders of scedar (\<open>scedar/eda/mdl.py\<close>)\<close>

text \<open>
  The module fits three description-length models to a numeric vector: a multinomial
  model over the exact observed values (\<open>MultinomialMdl\<close>), a Gaussian kernel density
  model (\<open>GKdeMdl\<close>) and a zero-inflated composite of the two (\<open>ZeroIGKdeMdl\<close>).

  Numbers. The entries of an array are modelled as real numbers, and floating-point
  arithmetic on them is exact: rounding, floating-point overflow and non-finite array
  entries are abstracted away. The one cast to machine integers, \<open>.astype(int)\<close> in the
  fallback of \<open>GKdeMdl\<close>, is modelled with its 64-bit range. What
  numpy computes \<^emph>\<open>from\<close> such entries is not always a real number, though:
  \<open>np.log(0)\<close> is \<open>-inf\<close>, \<open>np.log\<close> of a negative number is \<open>nan\<close>, and the
  sample standard deviation of fewer than two points is \<open>nan\<close>. HOL's own \<open>ln\<close> is
  total with \<open>ln 0 = 0\<close>, so every value that comes out of a logarithm lives in the type
  \<open>npfloat\<close> below, with IEEE arithmetic on the infinities and on \<open>nan\<close>.
\<close>

subsection \<open>Floating-point values with infinities\<close>

datatype npfloat = Fin real | PInf | NInf | NaN

instantiation npfloat :: "{comm_monoid_add, uminus, minus, times}"
begin

definition zero_npfloat :: npfloat where
  "zero_npfloat = Fin 0"

fun plus_npfloat :: "npfloat \<Rightarrow> npfloat \<Rightarrow> npfloat" where
  "plus_npfloat (Fin a) (Fin b) = Fin (a + b)"
| "plus_npfloat NaN _ = NaN"
| "plus_npfloat _ NaN = NaN"
| "plus_npfloat PInf NInf = NaN"
| "plus_npfloat NInf PInf = NaN"
| "plus_npfloat PInf _ = PInf"
| "plus_npfloat _ PInf = PInf"
| "plus_npfloat NInf _ = NInf"
| "plus_npfloat _ NInf = NInf"

fun uminus_npfloat :: "npfloat \<Rightarrow> npfloat" where
  "uminus_npfloat (Fin a) = Fin (- a)"
| "uminus_npfloat PInf = NInf"
| "uminus_npfloat NInf = PInf"
| "uminus_npfloat NaN = NaN"

definition minus_npfloat :: "npfloat \<Rightarrow> npfloat \<Rightarrow> npfloat" where
  "minus_npfloat a b = a + (- b)"

fun sign_inf :: "bool \<Rightarrow> npfloat" where
  "sign_inf True = PInf"
| "sign_inf False = NInf"

fun times_npfloat :: "npfloat \<Rightarrow> npfloat \<Rightarrow> npfloat" where
  "times_npfloat (Fin a) (Fin b) = Fin (a * b)"
| "times_npfloat NaN _ = NaN"
| "times_npfloat _ NaN = NaN"
| "times_npfloat PInf (Fin b) = (if b = 0 then NaN else sign_inf (0 < b))"
| "times_npfloat NInf (Fin b) = (if b = 0 then NaN else sign_inf (b < 0))"
| "times_npfloat (Fin a) PInf = (if a = 0 then NaN else sign_inf (0 < a))"
| "times_npfloat (Fin a) NInf = (if a = 0 then NaN else sign_inf (a < 0))"
| "times_npfloat PInf PInf = PInf"
| "times_npfloat NInf NInf = PInf"
| "times_npfloat PInf NInf = NInf"
| "times_npfloat NInf PInf = NInf"

instance
proof (standard, goal_cases)
  case (1 x y z)
  show ?case by (cases x; cases y; cases z; simp)
next
  case (2 x y)
  show ?case by (cases x; cases y; simp)
next
  case (3 x)
  show ?case by (cases x; simp add: zero_npfloat_def)
qed

end

text \<open>\<open>np.log\<close> on a real argument: \<open>-inf\<close> at zero, \<open>nan\<close> below zero.\<close>

definition np_log :: "real \<Rightarrow> npfloat" where
  "np_log x = (if 0 < x then Fin (ln x) else if x = 0 then NInf else NaN)"

text \<open>A "non-negative real scalar": finite and at least zero.\<close>

fun nonneg_real :: "npfloat \<Rightarrow> bool" where
  "nonneg_real (Fin r) = (0 \<le> r)"
| "nonneg_real _ = False"

subsection \<open>Arrays and \<open>npfloat_1d\<close>\<close>

text \<open>
  A numpy array carries its number of dimensions; the encoders accept only one-dimensional
  arrays and raise \<open>ValueError\<close> otherwise.
\<close>

datatype ndarray = Arr0 real | Arr1 "real list" | Arr2 "real list list"

fun ndim :: "ndarray \<Rightarrow> nat" where
  "ndim (Arr0 _) = 0"
| "ndim (Arr1 _) = 1"
| "ndim (Arr2 _) = 2"

text \<open>
  Exceptions: Python's \<open>ValueError\<close> and \<open>IndexError\<close>, and \<open>EstimationFailure\<close> for
  whatever exception the density fit raises.
\<close>

datatype error = ValueError | IndexError | EstimationFailure

text \<open>
  \<open>npfloat_1d(x, dtype)\<close>: the flag \<open>dtype_is_number\<close> is the outcome of
  \<open>np.issubdtype(dtype, np.number)\<close>; every caller in the module uses the default
  64-bit float, for which it is true. \<open>np.array(x, dtype=dtype)\<close> builds a new array.
\<close>

fun npfloat_1d :: "ndarray \<Rightarrow> bool \<Rightarrow> error + real list" where
  "npfloat_1d x dtype_is_number =
     (if \<not> dtype_is_number then Inl ValueError
      else (case x of Arr1 xarr \<Rightarrow> Inr xarr | _ \<Rightarrow> Inl ValueError))"

subsection \<open>numpy primitives\<close>

text \<open>
  \<open>np.unique(x, return_counts=True)\<close>: the sorted distinct values and, for each, the number
  of its occurrences.
\<close>

definition np_unique :: "real list \<Rightarrow> real list \<times> nat list" where
  "np_unique xs = (let u = sort (remdups xs) in (u, map (count_list xs) u))"

text \<open>\<open>np.max\<close>; numpy raises \<open>ValueError\<close> on an empty array.\<close>

definition np_max :: "real list \<Rightarrow> error + real" where
  "np_max xs = (case xs of [] \<Rightarrow> Inl ValueError | x # rest \<Rightarrow> Inr (fold max rest x))"

text \<open>
  \<open>np.searchsorted(a, v)\<close> with the default \<open>side='left'\<close> on a sorted array: the first
  index whose element is not below \<open>v\<close>.
\<close>

definition np_searchsorted :: "real list \<Rightarrow> real \<Rightarrow> nat" where
  "np_searchsorted a v = length (takeWhile (\<lambda>u. u < v) a)"

text \<open>Python indexing of a sequence: negative indices count from the end.\<close>

definition py_get :: "'a list \<Rightarrow> int \<Rightarrow> error + 'a" where
  "py_get xs i =
     (if 0 \<le> i \<and> i < int (length xs) then Inr (xs ! nat i)
      else if i < 0 \<and> - int (length xs) \<le> i then Inr (xs ! nat (int (length xs) + i))
      else Inl IndexError)"

text \<open>
  \<open>.astype(int)\<close> casts to a signed 64-bit integer: the value is truncated towards zero,
  and a value whose truncation does not fit into 64 bits becomes the smallest 64-bit
  integer, \<open>-2\<^sup>6\<^sup>3\<close>.
\<close>

definition astype_int :: "real \<Rightarrow> int" where
  "astype_int r =
     (let t = (if 0 \<le> r then \<lfloor>r\<rfloor> else \<lceil>r\<rceil>)
      in if - (2 ^ 63) \<le> t \<and> t < 2 ^ 63 then t else - (2 ^ 63))"

subsection \<open>\<open>MultinomialMdl\<close>\<close>

record MultinomialMdl =
  mn_x :: "real list"
  mn_n :: nat
  mn_n_uniq :: nat
  mn_uniq_vals :: "real list"
  mn_uniq_val_cnts :: "nat list"
  mn_uniq_val_ps :: "real list"
  mn_uniq_val_p_lut :: "real \<rightharpoonup> real"
  mn_mdl :: npfloat

text \<open>
  \<open>MultinomialMdl.__init__\<close>, after \<open>Mdl.__init__\<close> has stored \<open>npfloat_1d(x)\<close> and its
  length. \<open>np.unique\<close> is called on the argument itself, which holds the same numbers as
  the stored array. When \<open>n = 0\<close> the count array is empty, so the division
  \<open>uniq_val_cnts / self._n\<close> divides nothing. The keys of the lookup table are distinct, so
  \<open>dict(zip(...))\<close> and \<open>map_of (zip ...)\<close> agree.
\<close>

definition MultinomialMdl_init :: "ndarray \<Rightarrow> error + MultinomialMdl" where
  "MultinomialMdl_init x =
     (case npfloat_1d x True of
        Inl e \<Rightarrow> Inl e
      | Inr xarr \<Rightarrow>
          (let n = length xarr;
               (uniq_vals, uniq_val_cnts) = np_unique xarr;
               uniq_val_ps = map (\<lambda>c. real c / real n) uniq_val_cnts;
               mdl = (if length uniq_vals > 1
                      then sum_list (map2 (\<lambda>p c. - np_log p * Fin (real c))
                                          uniq_val_ps uniq_val_cnts)
                      else if length uniq_vals = 1 then np_log (real n)
                      else 0)
           in Inr \<lparr> mn_x = xarr, mn_n = n, mn_n_uniq = length uniq_vals,
                    mn_uniq_vals = uniq_vals, mn_uniq_val_cnts = uniq_val_cnts,
                    mn_uniq_val_ps = uniq_val_ps,
                    mn_uniq_val_p_lut = map_of (zip uniq_vals uniq_val_ps),
                    mn_mdl = mdl \<rparr>))"

text \<open>
  \<open>MultinomialMdl.encode\<close>. The probability the loop takes for a query value that is absent
  from the lookup table when \<open>use_adjescent_when_absent\<close> is set: the insertion index of
  the value among the sorted fitted values decides between the first entry, the last
  entry, and the nearer of the two neighbours.
\<close>

definition adjacent_p :: "MultinomialMdl \<Rightarrow> real \<Rightarrow> error + real" where
  "adjacent_p self uval =
     (let uind = np_searchsorted (mn_uniq_vals self) uval in
      if uind \<le> 0 then py_get (mn_uniq_val_ps self) 0
      else if uind \<ge> mn_n_uniq self then py_get (mn_uniq_val_ps self) (- 1)
      else
        (case py_get (mn_uniq_vals self) (int uind - 1) of
           Inl e \<Rightarrow> Inl e
         | Inr lv \<Rightarrow>
        (case py_get (mn_uniq_vals self) (int uind) of
           Inl e \<Rightarrow> Inl e
         | Inr rv \<Rightarrow>
           (let l_diff = \<bar>lv - uval\<bar>; r_diff = \<bar>rv - uval\<bar> in
            if l_diff < r_diff then py_get (mn_uniq_val_ps self) (int uind - 1)
            else if l_diff > r_diff then py_get (mn_uniq_val_ps self) (int uind)
            else
              (case py_get (mn_uniq_val_ps self) (int uind - 1) of
                 Inl e \<Rightarrow> Inl e
               | Inr pl \<Rightarrow>
              (case py_get (mn_uniq_val_ps self) (int uind) of
                 Inl e \<Rightarrow> Inl e
               | Inr pr \<Rightarrow> Inr (max pl pr)))))))"

text \<open>The cost \<open>uval_mdl\<close> the loop body computes for one distinct query value.\<close>

definition uval_mdl :: "MultinomialMdl \<Rightarrow> bool \<Rightarrow> npfloat \<Rightarrow> real \<Rightarrow> error + npfloat" where
  "uval_mdl self use_adjescent_when_absent unif_q_val_mdl uval =
     (case mn_uniq_val_p_lut self uval of
        None \<Rightarrow>
          (if use_adjescent_when_absent
           then (case adjacent_p self uval of
                   Inl e \<Rightarrow> Inl e
                 | Inr uval_p \<Rightarrow> Inr (- np_log uval_p))
           else Inr unif_q_val_mdl)
      | Some uval_p \<Rightarrow> Inr (- np_log uval_p))"

text \<open>The loop over the distinct query values and their counts, with its accumulator.\<close>

fun encode_loop ::
  "MultinomialMdl \<Rightarrow> bool \<Rightarrow> npfloat \<Rightarrow> (real \<times> nat) list \<Rightarrow> npfloat \<Rightarrow> error + npfloat" where
  "encode_loop self adj unif [] q_mdl = Inr q_mdl"
| "encode_loop self adj unif ((uval, ucnt) # rest) q_mdl =
     (case uval_mdl self adj unif uval of
        Inl e \<Rightarrow> Inl e
      | Inr m \<Rightarrow> encode_loop self adj unif rest (q_mdl + m * Fin (real ucnt)))"

definition encode :: "MultinomialMdl \<Rightarrow> ndarray \<Rightarrow> bool \<Rightarrow> error + npfloat" where
  "encode self qx use_adjescent_when_absent =
     (case npfloat_1d qx True of
        Inl e \<Rightarrow> Inl e
      | Inr q \<Rightarrow>
          if length q = 0 then Inr 0
          else
            (case np_max (map (\<lambda>v. \<bar>v\<bar> * 2) q) of
               Inl e \<Rightarrow> Inl e
             | Inr max_q \<Rightarrow>
                 (let unif_q_val_mdl = np_log max_q in
                  if mn_n self = 0 then Inr (Fin (real (length q)) * unif_q_val_mdl)
                  else
                    (let (q_uniq_vals, q_uniq_val_cnts) = np_unique q
                     in encode_loop self use_adjescent_when_absent unif_q_val_mdl
                          (zip q_uniq_vals q_uniq_val_cnts) 0))))"

subsection \<open>The kernel density provider\<close>

text \<open>
  \<open>scipy.stats.gaussian_kde\<close> is not part of the module; it is a parameter of the model.
  A provider takes the data set in scipy's layout (features by samples) and the bandwidth
  method, and either raises or returns a fitted density with its bandwidth \<open>factor\<close> and
  its \<open>evaluate\<close> method, which may raise as well. The bandwidth method is only passed
  through, so its type is a parameter.
\<close>

record gaussian_kde =
  kde_factor :: real
  kde_evaluate :: "real list list \<Rightarrow> error + real list"

type_synonym 'bw kde_provider = "real list list \<Rightarrow> 'bw \<Rightarrow> error + gaussian_kde"

text \<open>A provider on whose input the fit raises.\<close>

definition always_raises :: "'bw kde_provider" where
  "always_raises = (\<lambda>dataset bw_method. Inl EstimationFailure)"

text \<open>
  \<open>GKdeMdl.gaussian_kde_logdens\<close>: a one-dimensional array is reshaped to one row, a
  two-dimensional one is transposed, anything else is refused. The Python function
  returns the log-densities alone or with the kernel; here the kernel is optional.
\<close>

definition gaussian_kde_logdens ::
  "'bw kde_provider \<Rightarrow> ndarray \<Rightarrow> 'bw \<Rightarrow> bool \<Rightarrow> error + (npfloat list \<times> gaussian_kde option)" where
  "gaussian_kde_logdens gaussian_kde x bandwidth_method ret_kernel =
     (case (case x of
              Arr1 xs \<Rightarrow> Inr [xs]
            | Arr2 rows \<Rightarrow> Inr (transpose rows)
            | Arr0 _ \<Rightarrow> Inl ValueError) of
        Inl e \<Rightarrow> Inl e
      | Inr x' \<Rightarrow>
          (case gaussian_kde x' bandwidth_method of
             Inl e \<Rightarrow> Inl e
           | Inr kde \<Rightarrow>
               (case kde_evaluate kde x' of
                  Inl e \<Rightarrow> Inl e
                | Inr dens \<Rightarrow>
                    Inr (map np_log dens, if ret_kernel then Some kde else None))))"

subsection \<open>\<open>GKdeMdl\<close>\<close>

record 'bw GKdeMdl =
  gk_x :: "real list"
  gk_n :: nat
  gk_bw_method :: 'bw
  gk_mdl :: npfloat
  gk_bw_factor :: "real option"
  gk_kde :: "gaussian_kde option"
  gk_logdens :: "npfloat list option"

text \<open>
  \<open>GKdeMdl._kde_mdl\<close> returns the cost and sets \<open>_bw_factor\<close>, \<open>_kde\<close> and \<open>_logdens\<close>;
  the model returns all four. Any exception of the fit is caught and the cost is that of
  a \<open>MultinomialMdl\<close> on \<open>(x * 100).astype(int)\<close>. The product \<open>x * 100\<close> is the exact
  one here; the cast is the 64-bit cast.
\<close>

definition quantize :: "real list \<Rightarrow> real list" where
  "quantize x = map (\<lambda>v. real_of_int (astype_int (v * 100))) x"

definition GKdeMdl_kde_mdl ::
  "'bw kde_provider \<Rightarrow> real list \<Rightarrow> nat \<Rightarrow> 'bw
     \<Rightarrow> error + (npfloat \<times> real option \<times> gaussian_kde option \<times> npfloat list option)" where
  "GKdeMdl_kde_mdl gaussian_kde x n bw_method =
     (if n = 0 then Inr (0, None, None, None)
      else
        (case gaussian_kde_logdens gaussian_kde (Arr1 x) bw_method True of
           Inr (logdens, Some kde) \<Rightarrow>
             Inr (- sum_list logdens + np_log 2, Some (kde_factor kde), Some kde, Some logdens)
         | _ \<Rightarrow>
             (case MultinomialMdl_init (Arr1 (quantize x)) of
                Inl e \<Rightarrow> Inl e
              | Inr m \<Rightarrow> Inr (mn_mdl m, None, None, None))))"

definition GKdeMdl_init :: "'bw kde_provider \<Rightarrow> ndarray \<Rightarrow> 'bw \<Rightarrow> error + 'bw GKdeMdl" where
  "GKdeMdl_init gaussian_kde x kde_bw_method =
     (if ndim x \<noteq> 1 then Inl ValueError else
      case x of
        Arr1 xs \<Rightarrow>
          (case GKdeMdl_kde_mdl gaussian_kde xs (length xs) kde_bw_method of
             Inl e \<Rightarrow> Inl e
           | Inr (kde_mdl, bw_factor, kde, logdens) \<Rightarrow>
               Inr \<lparr> gk_x = xs, gk_n = length xs, gk_bw_method = kde_bw_method,
                      gk_mdl = kde_mdl, gk_bw_factor = bw_factor, gk_kde = kde,
                      gk_logdens = logdens \<rparr>)
      | _ \<Rightarrow> Inl ValueError)"

text \<open>
  \<open>x.std(ddof=1)\<close>: the sum of squared deviations from the mean over \<open>n - 1\<close>; numpy
  gives \<open>nan\<close> for fewer than two points (\<open>0/0\<close>).
\<close>

definition np_std_ddof1 :: "real list \<Rightarrow> npfloat" where
  "np_std_ddof1 xs =
     (let n = length xs in
      if n \<le> 1 then NaN
      else (let mean = sum_list xs / real n
            in Fin (sqrt (sum_list (map (\<lambda>v. (v - mean)\<^sup>2) xs) / real (n - 1)))))"

definition GKdeMdl_bandwidth :: "'bw GKdeMdl \<Rightarrow> npfloat option" where
  "GKdeMdl_bandwidth self =
     (case gk_bw_factor self of
        None \<Rightarrow> None
      | Some bw_factor \<Rightarrow> Some (Fin bw_factor * np_std_ddof1 (gk_x self)))"

subsection \<open>\<open>ZeroIGKdeMdl\<close>\<close>

record 'bw ZeroIGKdeMdl =
  z_x :: "real list"
  z_n :: nat
  z_x_nonzero :: "real list"
  z_k :: nat
  z_bw_method :: 'bw
  z_zi_mdl :: npfloat
  z_kde_mdl_obj :: "'bw GKdeMdl"
  z_kde_mdl :: npfloat
  z_mdl :: npfloat

definition compute_zero_indicator_mdl :: "nat \<Rightarrow> nat \<Rightarrow> npfloat" where
  "compute_zero_indicator_mdl n k =
     (if n = 0 then 0
      else if k = n \<or> k = 0 then np_log 3
      else (let p = real k / real n
            in np_log 3 - Fin (real k) * np_log p
                 - Fin (real_of_int (int n - int k)) * np_log (1 - p)))"

definition ZeroIGKdeMdl_init ::
  "'bw kde_provider \<Rightarrow> ndarray \<Rightarrow> 'bw \<Rightarrow> error + 'bw ZeroIGKdeMdl" where
  "ZeroIGKdeMdl_init gaussian_kde x kde_bw_method =
     (if ndim x \<noteq> 1 then Inl ValueError else
      case x of
        Arr1 xs \<Rightarrow>
          (let n = length xs;
               x_nonzero = filter (\<lambda>v. v \<noteq> 0) xs;
               k = length x_nonzero;
               zi_mdl = compute_zero_indicator_mdl n k
           in (case GKdeMdl_init gaussian_kde (Arr1 x_nonzero) kde_bw_method of
                 Inl e \<Rightarrow> Inl e
               | Inr kde_mdl_obj \<Rightarrow>
                   Inr \<lparr> z_x = xs, z_n = n, z_x_nonzero = x_nonzero, z_k = k,
                          z_bw_method = kde_bw_method, z_zi_mdl = zi_mdl,
                          z_kde_mdl_obj = kde_mdl_obj, z_kde_mdl = gk_mdl kde_mdl_obj,
                          z_mdl = zi_mdl + gk_mdl kde_mdl_obj \<rparr>))
      | _ \<Rightarrow> Inl ValueError)"

definition ZeroIGKdeMdl_bandwidth :: "'bw ZeroIGKdeMdl \<Rightarrow> npfloat option" where
  "ZeroIGKdeMdl_bandwidth self = GKdeMdl_bandwidth (z_kde_mdl_obj self)"

definition ZeroIGKdeMdl_kde :: "'bw ZeroIGKdeMdl \<Rightarrow> gaussian_kde option" where
  "ZeroIGKdeMdl_kde self = gk_kde (z_kde_mdl_obj self)"

text \<open>
  The self-cost as the specification words it: nothing for an empty sample, \<open>log n\<close>
  when there is exactly one distinct value, and otherwise the sum over the distinct values
  of \<open>-log(p\<^sub>i) * c\<^sub>i\<close>, with \<open>c\<^sub>i\<close> the count of the value and \<open>p\<^sub>i = c\<^sub>i / n\<close>.
\<close>

definition multinomial_self_cost_spec :: "real list \<Rightarrow> real" where
  "multinomial_self_cost_spec xs =
     (let n = length xs in
      if n = 0 then 0
      else if card (set xs) = 1 then ln (real n)
      else (\<Sum>v\<in>set xs. - ln (real (count_list xs v) / real n) * real (count_list xs v)))"

text \<open>
  The zero-indicator cost as the specification words it, for a vector of length \<open>n\<close>
  with \<open>k\<close> non-zero entries.
\<close>

definition zero_indicator_cost_spec :: "nat \<Rightarrow> nat \<Rightarrow> real" where
  "zero_indicator_cost_spec n k =
     (if n = 0 then 0
      else if k = n \<or> k = 0 then ln 3
      else (let p = real k / real n
            in ln 3 - real k * ln p - real (n - k) * ln (1 - p)))"

text \<open>
  Quantisation worded without the code's cast: a number truncated towards zero is its sign
  times the integer part of its magnitude; the quantised value of \<open>v\<close> is \<open>100 v\<close> so
  truncated when that lies in the 64-bit range \<open>[-2\<^sup>6\<^sup>3, 2\<^sup>6\<^sup>3)\<close>, and \<open>-2\<^sup>6\<^sup>3\<close>
  when it does not.
\<close>

definition truncate_spec :: "real \<Rightarrow> int" where
  "truncate_spec r = (if r < 0 then - 1 else 1) * \<lfloor>\<bar>r\<bar>\<rfloor>"

definition quantized_value_spec :: "real \<Rightarrow> real" where
  "quantized_value_spec v =
     (if - (2 ^ 63) \<le> truncate_spec (100 * v) \<and> truncate_spec (100 * v) < 2 ^ 63
      then real_of_int (truncate_spec (100 * v))
      else - (2 ^ 63))"

text \<open>
  The query cost as the specification words it, for the default
  \<open>use_adjescent_when_absent = False\<close>: the uniform fallback is \<open>log(max(|q|) * 2)\<close>; the
  cost is \<open>0\<close> for an empty query, \<open>q.size\<close> times the fallback when the fitted model has
  \<open>n = 0\<close>, and otherwise the sum over the distinct query values of their cost times their
  multiplicity, the cost being \<open>-log p\<close> for a value in the lookup table and the fallback
  for any other.
\<close>

definition uniform_fallback :: "real list \<Rightarrow> npfloat" where
  "uniform_fallback q = np_log (Max (abs ` set q) * 2)"

definition encode_cost_spec :: "MultinomialMdl \<Rightarrow> real list \<Rightarrow> npfloat" where
  "encode_cost_spec self q =
     (if q = [] then Fin 0
      else if mn_n self = 0 then Fin (real (length q)) * uniform_fallback q
      else (\<Sum>v\<in>set q.
              (case mn_uniq_val_p_lut self v of
                 Some p \<Rightarrow> - np_log p
               | None \<Rightarrow> uniform_fallback q) * Fin (real (count_list q v))))"

text \<open>
  The probability charged to an absent value when adjacent values are used, worded after
  the code: below the smallest fitted value, the probability of that smallest value; above
  the largest fitted value, the probability of that largest value; in between, the
  probability of the nearer of the two neighbouring fitted values, and on a tie the larger
  of the two neighbours' probabilities.
\<close>

definition adjacent_probability_spec :: "real list \<Rightarrow> real \<Rightarrow> real" where
  "adjacent_probability_spec xs v =
     (let P = (\<lambda>a. real (count_list xs a) / real (length xs)) in
      if v < Min (set xs) then P (Min (set xs))
      else if Max (set xs) < v then P (Max (set xs))
      else (let l = Max (set (filter (\<lambda>a. a < v) xs));
                r = Min (set (filter (\<lambda>a. v < a) xs))
            in if \<bar>l - v\<bar> < \<bar>r - v\<bar> then P l
               else if \<bar>r - v\<bar> < \<bar>l - v\<bar> then P r
               else max (P l) (P r)))"

text \<open>Fitting a model and querying it, as a caller does: \<open>MultinomialMdl(x).encode(qx, flag)\<close>.\<close>

definition fit_encode :: "ndarray \<Rightarrow> ndarray \<Rightarrow> bool \<Rightarrow> error + npfloat" where
  "fit_encode x qx use_adjescent_when_absent =
     (case MultinomialMdl_init x of
        Inl e \<Rightarrow> Inl e
      | Inr m \<Rightarrow> encode m qx use_adjescent_when_absent)"

subsection \<open>Arrays shared with the caller\<close>

text \<open>
  Whether a caller can change an object's sample depends on which arrays the object shares
  with it. For that question arrays live in a store and are named by their address. An
  object holds the address of every array an accessor hands out a copy of, next to the
  values fitted at construction; a caller can write into any array whose address it holds
  (\<open>a[i] = v\<close>). \<open>np.array(x)\<close>, \<open>x[np.nonzero(x)]\<close> and \<open>.copy()\<close> create a new array;
  \<open>self._x = x\<close> stores the address it was given.
\<close>

type_synonym addr = nat

type_synonym store = "ndarray list"

definition alloc :: "store \<Rightarrow> ndarray \<Rightarrow> store \<times> addr" where
  "alloc s a = (s @ [a], length s)"

text \<open>\<open>a[i] = v\<close> on a one-dimensional array; out of range, Python raises and nothing changes.\<close>

definition setitem :: "store \<Rightarrow> addr \<Rightarrow> nat \<Rightarrow> real \<Rightarrow> store" where
  "setitem s a i v =
     (if a < length s
      then (case s ! a of
              Arr1 xs \<Rightarrow> if i < length xs then s[a := Arr1 (xs[i := v])] else s
            | _ \<Rightarrow> s)
      else s)"

fun contents :: "ndarray \<Rightarrow> real list" where
  "contents (Arr1 xs) = xs"
| "contents (Arr0 x) = [x]"
| "contents (Arr2 rows) = concat rows"

record MultinomialMdl_obj =
  mo_x :: addr
  mo_fitted :: MultinomialMdl

text \<open>\<open>Mdl.__init__\<close> stores \<open>npfloat_1d(x)\<close>, a new array.\<close>

definition MultinomialMdl_new :: "store \<Rightarrow> addr \<Rightarrow> error + store \<times> MultinomialMdl_obj" where
  "MultinomialMdl_new s x =
     (case MultinomialMdl_init (s ! x) of
        Inl e \<Rightarrow> Inl e
      | Inr m \<Rightarrow>
          (let (s', r) = alloc s (Arr1 (mn_x m))
           in Inr (s', \<lparr> mo_x = r, mo_fitted = m \<rparr>)))"

text \<open>The property \<open>x\<close> of \<open>Mdl\<close>: \<open>self._x.copy()\<close>.\<close>

definition Mdl_x :: "store \<Rightarrow> MultinomialMdl_obj \<Rightarrow> store \<times> addr" where
  "Mdl_x s self = alloc s (s ! mo_x self)"

record 'bw GKdeMdl_obj =
  go_x :: addr
  go_fitted :: "'bw GKdeMdl"

text \<open>\<open>GKdeMdl.__init__\<close> stores \<open>x\<close> itself: \<open>self._x = x\<close>.\<close>

definition GKdeMdl_new ::
  "'bw kde_provider \<Rightarrow> store \<Rightarrow> addr \<Rightarrow> 'bw \<Rightarrow> error + store \<times> 'bw GKdeMdl_obj" where
  "GKdeMdl_new gaussian_kde s x kde_bw_method =
     (case GKdeMdl_init gaussian_kde (s ! x) kde_bw_method of
        Inl e \<Rightarrow> Inl e
      | Inr g \<Rightarrow> Inr (s, \<lparr> go_x = x, go_fitted = g \<rparr>))"

definition GKdeMdl_x :: "store \<Rightarrow> 'bw GKdeMdl_obj \<Rightarrow> store \<times> addr" where
  "GKdeMdl_x s self = alloc s (s ! go_x self)"

text \<open>The property \<open>bandwidth\<close> reads \<open>self._x\<close> at the time of the call.\<close>

definition GKdeMdl_bandwidth_at :: "store \<Rightarrow> 'bw GKdeMdl_obj \<Rightarrow> npfloat option" where
  "GKdeMdl_bandwidth_at s self =
     (case gk_bw_factor (go_fitted self) of
        None \<Rightarrow> None
      | Some bw_factor \<Rightarrow> Some (Fin bw_factor * np_std_ddof1 (contents (s ! go_x self))))"

record 'bw ZeroIGKdeMdl_obj =
  zo_x :: addr
  zo_x_nonzero :: addr
  zo_fitted :: "'bw ZeroIGKdeMdl"

text \<open>
  \<open>ZeroIGKdeMdl.__init__\<close> stores \<open>x\<close> itself and a new array \<open>x[np.nonzero(x)]\<close>, which
  it passes on to the inner \<open>GKdeMdl\<close>.
\<close>

definition ZeroIGKdeMdl_new ::
  "'bw kde_provider \<Rightarrow> store \<Rightarrow> addr \<Rightarrow> 'bw \<Rightarrow> error + store \<times> 'bw ZeroIGKdeMdl_obj" where
  "ZeroIGKdeMdl_new gaussian_kde s x kde_bw_method =
     (case ZeroIGKdeMdl_init gaussian_kde (s ! x) kde_bw_method of
        Inl e \<Rightarrow> Inl e
      | Inr z \<Rightarrow>
          (let (s', r) = alloc s (Arr1 (z_x_nonzero z))
           in Inr (s', \<lparr> zo_x = x, zo_x_nonzero = r, zo_fitted = z \<rparr>)))"

definition ZeroIGKdeMdl_x :: "store \<Rightarrow> 'bw ZeroIGKdeMdl_obj \<Rightarrow> store \<times> addr" where
  "ZeroIGKdeMdl_x s self = alloc s (s ! zo_x self)"

definition ZeroIGKdeMdl_x_nonzero :: "store \<Rightarrow> 'bw ZeroIGKdeMdl_obj \<Rightarrow> store \<times> addr" where
  "ZeroIGKdeMdl_x_nonzero s self = alloc s (s ! zo_x_nonzero self)"

text \<open>
  \<open>MultinomialMdl.encode\<close> on a query array of the store: \<open>npfloat_1d(qx)\<close> is a new local
  array, the object is only read.
\<close>

definition encode_at ::
  "store \<Rightarrow> MultinomialMdl_obj \<Rightarrow> addr \<Rightarrow> bool
     \<Rightarrow> error + store \<times> MultinomialMdl_obj \<times> npfloat" where
  "encode_at s self qx use_adjescent_when_absent =
     (case npfloat_1d (s ! qx) True of
        Inl e \<Rightarrow> Inl e
      | Inr q \<Rightarrow>
          (let (s', r) = alloc s (Arr1 q)
           in (case encode (mo_fitted self) (s' ! r) use_adjescent_when_absent of
                 Inl e \<Rightarrow> Inl e
               | Inr q_mdl \<Rightarrow> Inr (s', self, q_mdl))))"

section \<open>Properties\<close>

subsection \<open>The fitted multinomial model\<close>

lemma Fin_sum_list: "sum_list (map (\<lambda>v. Fin (f v)) xs) = Fin (sum_list (map f xs))"
  by (induction xs) (simp_all add: zero_npfloat_def)

lemma length_uniq: "length (sort (remdups xs)) = card (set xs)"
  by (simp add: length_remdups_card_conv)

lemma np_log_pos: "0 < x \<Longrightarrow> np_log x = Fin (ln x)"
  by (simp add: np_log_def)

lemma count_list_pos: "v \<in> set xs \<Longrightarrow> 0 < count_list xs v"
  using count_list_0_iff [of xs v] by simp

lemma fitted_p_pos: "v \<in> set xs \<Longrightarrow> 0 < real (count_list xs v) / real (length xs)"
  using count_list_pos [of v xs] by (cases xs) simp_all

lemma map2_map_both: "map2 f (map g ys) (map h ys) = map (\<lambda>y. f (g y) (h y)) ys"
  by (induction ys) simp_all

text \<open>The self-cost sum of the source, over the sorted distinct values.\<close>

lemma self_cost_sum:
  "sum_list (map2 (\<lambda>p c. - np_log p * Fin (real c))
       (map (\<lambda>v. real (count_list xs v) / real (length xs)) (sort (remdups xs)))
       (map (count_list xs) (sort (remdups xs))))
   = Fin (\<Sum>v\<in>set xs. - ln (real (count_list xs v) / real (length xs)) * real (count_list xs v))"
proof -
  let ?u = "sort (remdups xs)"
  let ?g = "\<lambda>v. - ln (real (count_list xs v) / real (length xs)) * real (count_list xs v)"
  have "map2 (\<lambda>p c. - np_log p * Fin (real c))
          (map (\<lambda>v. real (count_list xs v) / real (length xs)) ?u) (map (count_list xs) ?u)
        = map (\<lambda>v. - np_log (real (count_list xs v) / real (length xs))
                              * Fin (real (count_list xs v))) ?u"
    by (rule map2_map_both)
  also have "\<dots> = map (\<lambda>v. Fin (?g v)) ?u"
  proof (rule map_cong [OF refl])
    fix v assume "v \<in> set ?u"
    then have "v \<in> set xs" by simp
    then show "- np_log (real (count_list xs v) / real (length xs)) * Fin (real (count_list xs v))
               = Fin (?g v)"
      using fitted_p_pos [of v xs] by (simp add: np_log_pos)
  qed
  finally have "sum_list (map2 (\<lambda>p c. - np_log p * Fin (real c))
          (map (\<lambda>v. real (count_list xs v) / real (length xs)) ?u) (map (count_list xs) ?u))
        = Fin (sum_list (map ?g ?u))"
    by (simp add: Fin_sum_list)
  also have "sum_list (map ?g ?u) = sum ?g (set ?u)"
    by (rule sum_list_distinct_conv_sum_set) simp
  finally show ?thesis by simp
qed

lemma MultinomialMdl_init_Arr1:
  "MultinomialMdl_init (Arr1 xs) = Inr
     \<lparr> mn_x = xs, mn_n = length xs, mn_n_uniq = card (set xs),
       mn_uniq_vals = sort (remdups xs),
       mn_uniq_val_cnts = map (count_list xs) (sort (remdups xs)),
       mn_uniq_val_ps = map (\<lambda>v. real (count_list xs v) / real (length xs)) (sort (remdups xs)),
       mn_uniq_val_p_lut = map_of (zip (sort (remdups xs))
          (map (\<lambda>v. real (count_list xs v) / real (length xs)) (sort (remdups xs)))),
       mn_mdl = Fin (multinomial_self_cost_spec xs) \<rparr>"
proof -
  let ?u = "sort (remdups xs)"
  have len: "length ?u = card (set xs)" by (rule length_uniq)
  have ps: "map (\<lambda>c. real c / real (length xs)) (map (count_list xs) ?u)
            = map (\<lambda>v. real (count_list xs v) / real (length xs)) ?u"
    by (simp add: comp_def)
  have pos: "xs \<noteq> [] \<Longrightarrow> 0 < card (set xs)" by (simp add: card_gt_0_iff)
  have mdl: "(if length ?u > 1
              then sum_list (map2 (\<lambda>p c. - np_log p * Fin (real c))
                     (map (\<lambda>v. real (count_list xs v) / real (length xs)) ?u)
                     (map (count_list xs) ?u))
              else if length ?u = 1 then np_log (real (length xs)) else 0)
             = Fin (multinomial_self_cost_spec xs)"
  proof (cases "xs = []")
    case True
    then show ?thesis by (simp add: multinomial_self_cost_spec_def zero_npfloat_def)
  next
    case False
    with pos have p: "0 < card (set xs)" by simp
    show ?thesis
    proof (cases "card (set xs) = 1")
      case True
      with False show ?thesis
        unfolding len by (simp add: multinomial_self_cost_spec_def np_log_pos)
    next
      case False
      with p have "1 < card (set xs)" by linarith
      with \<open>xs \<noteq> []\<close> False show ?thesis
        unfolding len self_cost_sum by (simp add: multinomial_self_cost_spec_def)
    qed
  qed
  show ?thesis
    unfolding MultinomialMdl_init_def np_unique_def Let_def
    by (simp only: npfloat_1d.simps ndarray.case sum.case prod.case if_True if_False
          not_True_eq_False ps mdl [unfolded len] len)
qed

text \<open>
  Claim C1. For every input vector \<open>x\<close> the constructor of \<open>MultinomialMdl\<close> succeeds and
  its self-cost is \<open>0\<close> when \<open>n = 0\<close>, \<open>log n\<close> when \<open>x\<close> has exactly one distinct value, and
  the sum over the distinct values of \<open>-log(p\<^sub>i) * c\<^sub>i\<close> otherwise. For \<open>x = [1,1,2,2,2]\<close>
  it is \<open>-(2 log 0.4 + 3 log 0.6)\<close>.
\<close>

theorem multinomial_self_cost:
  "(\<exists>m. MultinomialMdl_init (Arr1 xs) = Inr m \<and> mn_mdl m = Fin (multinomial_self_cost_spec xs))
   \<and> (\<exists>m. MultinomialMdl_init (Arr1 [1, 1, 2, 2, 2]) = Inr m
           \<and> mn_mdl m = Fin (- (2 * ln 0.4 + 3 * ln 0.6)))"
  by (simp add: MultinomialMdl_init_Arr1 multinomial_self_cost_spec_def)

theorem multinomial_self_cost_witness:
  "\<exists>m. MultinomialMdl_init (Arr1 [5, 5, 5]) = Inr m \<and> mn_mdl m = Fin (ln 3)"
  using multinomial_self_cost [of "[5, 5, 5]"]
  by (simp add: multinomial_self_cost_spec_def)

subsection \<open>The kernel density encoder and the zero-inflated encoder\<close>

lemma Fin_minus [simp]: "Fin a - Fin b = Fin (a - b)"
  by (simp add: minus_npfloat_def)

lemma zi_pos:
  "0 < k \<Longrightarrow> k < n \<Longrightarrow> compute_zero_indicator_mdl n k =
     Fin (ln 3 - real k * ln (real k / real n) - real (n - k) * ln (1 - real k / real n))"
  by (simp add: compute_zero_indicator_mdl_def Let_def np_log_pos of_nat_diff)

lemma zi_spec: "k \<le> n \<Longrightarrow> compute_zero_indicator_mdl n k = Fin (zero_indicator_cost_spec n k)"
  by (cases "0 < k \<and> k < n")
     (auto simp: zi_pos zero_indicator_cost_spec_def compute_zero_indicator_mdl_def np_log_pos
        zero_npfloat_def Let_def)

text \<open>The fallback never raises, so the constructors succeed on every one-dimensional array.\<close>

lemma GKdeMdl_kde_mdl_total: "\<exists>r. GKdeMdl_kde_mdl P xs n bw = Inr r"
  by (auto simp: GKdeMdl_kde_mdl_def MultinomialMdl_init_Arr1
      split: sum.splits prod.splits option.splits)

lemma GKdeMdl_init_total: "\<exists>g. GKdeMdl_init P (Arr1 xs) bw = Inr g"
  using GKdeMdl_kde_mdl_total [of P xs "length xs" bw]
  by (auto simp: GKdeMdl_init_def split: prod.splits)

text \<open>
  Claim C2. For every one-dimensional \<open>x\<close> of length \<open>n\<close> with \<open>k\<close> non-zero entries the
  constructor of \<open>ZeroIGKdeMdl\<close> succeeds; its zero-indicator cost is \<open>0\<close> when \<open>n = 0\<close>,
  \<open>log 3\<close> when \<open>k = n\<close> or \<open>k = 0\<close>, and \<open>log 3 - k log p - (n - k) log (1 - p)\<close> with
  \<open>p = k / n\<close> otherwise; its total cost is that plus the cost of a \<open>GKdeMdl\<close> fitted to
  the non-zero entries with the same bandwidth method; and its \<open>bandwidth\<close> and \<open>kde\<close>
  accessors return what that \<open>GKdeMdl\<close> returns.
\<close>

theorem zero_inflated_cost:
  "\<exists>z g. ZeroIGKdeMdl_init P (Arr1 xs) bw = Inr z
      \<and> z_zi_mdl z = Fin (zero_indicator_cost_spec (length xs) (length (filter (\<lambda>v. v \<noteq> 0) xs)))
      \<and> GKdeMdl_init P (Arr1 (filter (\<lambda>v. v \<noteq> 0) xs)) bw = Inr g
      \<and> z_mdl z = z_zi_mdl z + gk_mdl g
      \<and> ZeroIGKdeMdl_bandwidth z = GKdeMdl_bandwidth g
      \<and> ZeroIGKdeMdl_kde z = gk_kde g"
proof -
  obtain g where g: "GKdeMdl_init P (Arr1 (filter (\<lambda>v. v \<noteq> 0) xs)) bw = Inr g"
    using GKdeMdl_init_total [of P "filter (\<lambda>v. v \<noteq> 0) xs" bw] by (elim exE)
  have "length (filter (\<lambda>v. v \<noteq> 0) xs) \<le> length xs" by simp
  then show ?thesis
    using g by (simp add: ZeroIGKdeMdl_init_def Let_def zi_spec ZeroIGKdeMdl_bandwidth_def
        ZeroIGKdeMdl_kde_def)
qed

theorem zero_inflated_cost_witness:
  "\<exists>z g. ZeroIGKdeMdl_init (\<lambda>d b. Inl EstimationFailure) (Arr1 [0, 0, 1, 2, 3]) ''silverman'' = Inr z
      \<and> z_zi_mdl z = Fin (ln 3 - 3 * ln (3 / 5) - 2 * ln (2 / 5))
      \<and> GKdeMdl_init (\<lambda>d b. Inl EstimationFailure) (Arr1 [1, 2, 3]) ''silverman'' = Inr g
      \<and> z_mdl z = z_zi_mdl z + gk_mdl g
      \<and> ZeroIGKdeMdl_bandwidth z = GKdeMdl_bandwidth g
      \<and> ZeroIGKdeMdl_kde z = gk_kde g"
  using zero_inflated_cost [of "\<lambda>d b. Inl EstimationFailure" "[0, 0, 1, 2, 3]" "''silverman''"]
  by (simp add: zero_indicator_cost_spec_def)

lemma gaussian_kde_logdens_Arr1:
  "gaussian_kde_logdens P (Arr1 xs) bw True =
     (case P [xs] bw of Inl e \<Rightarrow> Inl e
      | Inr kde \<Rightarrow> (case kde_evaluate kde [xs] of Inl e \<Rightarrow> Inl e
                    | Inr dens \<Rightarrow> Inr (map np_log dens, Some kde)))"
  by (simp add: gaussian_kde_logdens_def split: sum.splits)

text \<open>
  Claim C3. For an empty array \<open>GKdeMdl\<close> has cost \<open>0\<close> and no bandwidth. For a non-empty
  one-dimensional array on which the fit succeeds (the provider returns a density, and
  evaluating it at the training points returns the densities \<open>dens\<close>), the cost is the
  negated sum of the log-densities plus \<open>log 2\<close>, and the bandwidth is the density's
  factor times the sample standard deviation with \<open>ddof=1\<close>.
\<close>

theorem gkde_self_cost:
  "(\<exists>g. GKdeMdl_init P (Arr1 []) bw = Inr g \<and> gk_mdl g = Fin 0 \<and> GKdeMdl_bandwidth g = None)
   \<and> (xs \<noteq> [] \<longrightarrow> P [xs] bw = Inr kde \<longrightarrow> kde_evaluate kde [xs] = Inr dens \<longrightarrow>
        (\<exists>g. GKdeMdl_init P (Arr1 xs) bw = Inr g
            \<and> gk_mdl g = - sum_list (map np_log dens) + np_log 2
            \<and> GKdeMdl_bandwidth g = Some (Fin (kde_factor kde) * np_std_ddof1 xs)))"
  by (simp add: GKdeMdl_init_def GKdeMdl_kde_mdl_def gaussian_kde_logdens_Arr1
      GKdeMdl_bandwidth_def zero_npfloat_def)

theorem gkde_self_cost_witness:
  "[1, 3] \<noteq> ([] :: real list)
   \<and> (\<exists>g. GKdeMdl_init (\<lambda>d b. Inr \<lparr> kde_factor = 1 / 2, kde_evaluate = (\<lambda>pts. Inr [1 / 4, 1 / 8]) \<rparr>)
            (Arr1 [1, 3]) ''silverman'' = Inr g
        \<and> gk_mdl g = Fin (- (ln (1 / 4) + ln (1 / 8)) + ln 2)
        \<and> GKdeMdl_bandwidth g = Some (Fin (1 / 2 * sqrt 2)))"
  using gkde_self_cost [of "\<lambda>d b. Inr \<lparr> kde_factor = 1 / 2, kde_evaluate = (\<lambda>pts. Inr [1 / 4, 1 / 8]) \<rparr>"
      "''silverman''" "[1, 3]" "\<lparr> kde_factor = 1 / 2, kde_evaluate = (\<lambda>pts. Inr [1 / 4, 1 / 8]) \<rparr>"
      "[1 / 4, 1 / 8]"]
  by (simp add: np_log_def np_std_ddof1_def zero_npfloat_def power2_eq_square)

text \<open>
  The cast of the fallback against the quantisation worded on its own: truncation towards
  zero inside the 64-bit range, \<open>-2\<^sup>6\<^sup>3\<close> outside.
\<close>

lemma truncate_eq: "(if 0 \<le> r then \<lfloor>r\<rfloor> else \<lceil>r\<rceil>) = truncate_spec r"
  by (simp add: truncate_spec_def ceiling_def)

lemma astype_int_spec: "real_of_int (astype_int (v * 100)) = quantized_value_spec v"
proof -
  define T where "T = truncate_spec (100 * v)"
  have t: "(if 0 \<le> v * 100 then \<lfloor>v * 100\<rfloor> else \<lceil>v * 100\<rceil>) = T"
    unfolding T_def using truncate_eq [of "v * 100"] by (simp only: mult.commute [of v 100])
  show ?thesis
  proof (cases "- (2 ^ 63) \<le> T \<and> T < 2 ^ 63")
    case True
    then show ?thesis
      unfolding astype_int_def Let_def t quantized_value_spec_def T_def [symmetric]
      by (simp only: simp_thms if_True)
  next
    case False
    then show ?thesis
      unfolding astype_int_def Let_def t quantized_value_spec_def T_def [symmetric]
      by (simp only: simp_thms if_False of_int_minus of_int_power of_int_numeral)
  qed
qed

lemma quantize_spec: "quantize xs = map quantized_value_spec xs"
  by (simp add: quantize_def astype_int_spec)

lemma truncate_bounds:
  assumes "\<bar>r\<bar> < real_of_int B"
  shows "- B \<le> truncate_spec r \<and> truncate_spec r < B"
proof -
  define F where "F = \<lfloor>\<bar>r\<bar>\<rfloor>"
  have "F < B" unfolding F_def using assms by (simp add: floor_less_iff)
  moreover have "0 \<le> F" unfolding F_def by simp
  moreover have "truncate_spec r = - F \<or> truncate_spec r = F"
    unfolding truncate_spec_def F_def by simp
  ultimately show ?thesis by linarith
qed

lemma quantized_in_range:
  assumes "\<bar>100 * v\<bar> < 2 ^ 63"
  shows "quantized_value_spec v = real_of_int (truncate_spec (100 * v))"
proof -
  have "\<bar>100 * v\<bar> < real_of_int (2 ^ 63)"
    using assms by (simp only: of_int_power of_int_numeral)
  from truncate_bounds [OF this] show ?thesis
    unfolding quantized_value_spec_def by (simp only: simp_thms if_True)
qed

lemma GKdeMdl_init_fallback:
  assumes "xs \<noteq> []" "gaussian_kde_logdens P (Arr1 xs) bw True = Inl e"
  shows "GKdeMdl_init P (Arr1 xs) bw =
      Inr \<lparr> gk_x = xs, gk_n = length xs, gk_bw_method = bw,
            gk_mdl = Fin (multinomial_self_cost_spec (quantize xs)),
            gk_bw_factor = None, gk_kde = None, gk_logdens = None \<rparr>"
  using assms
  by (simp add: GKdeMdl_init_def GKdeMdl_kde_mdl_def MultinomialMdl_init_Arr1)

text \<open>
  Claim C4, as amended. When the density fit raises on a one-dimensional array \<open>x\<close>, the
  constructor of \<open>GKdeMdl\<close> still returns an object: its cost is that of a
  \<open>MultinomialMdl\<close> on \<open>x\<close> scaled by 100 and cast to 64-bit integers, that is, truncated
  towards zero where the scaled value lies in \<open>[-2\<^sup>6\<^sup>3, 2\<^sup>6\<^sup>3)\<close> and \<open>-2\<^sup>6\<^sup>3\<close> where it
  does not; and its \<open>bandwidth\<close> and \<open>kde\<close> are \<open>None\<close>. When every scaled value is below
  \<open>2\<^sup>6\<^sup>3\<close> in magnitude the quantised sample is \<open>x\<close> scaled by 100 and truncated.
\<close>

theorem gkde_fallback:
  "gaussian_kde_logdens P (Arr1 xs) bw True = Inl e \<Longrightarrow>
     \<exists>g m. GKdeMdl_init P (Arr1 xs) bw = Inr g
        \<and> MultinomialMdl_init (Arr1 (map quantized_value_spec xs)) = Inr m
        \<and> gk_mdl g = mn_mdl m
        \<and> ((\<forall>v\<in>set xs. \<bar>100 * v\<bar> < 2 ^ 63) \<longrightarrow>
              map quantized_value_spec xs = map (\<lambda>v. real_of_int (truncate_spec (100 * v))) xs)
        \<and> GKdeMdl_bandwidth g = None \<and> gk_kde g = None"
proof -
  assume fail: "gaussian_kde_logdens P (Arr1 xs) bw True = Inl e"
  obtain m where m: "MultinomialMdl_init (Arr1 (map quantized_value_spec xs)) = Inr m"
    by (simp add: MultinomialMdl_init_Arr1)
  have range: "(\<forall>v\<in>set xs. \<bar>100 * v\<bar> < 2 ^ 63) \<longrightarrow>
      map quantized_value_spec xs = map (\<lambda>v. real_of_int (truncate_spec (100 * v))) xs"
    using quantized_in_range by (intro impI map_cong refl) blast
  have init: "GKdeMdl_init P (Arr1 xs) bw =
      Inr \<lparr> gk_x = xs, gk_n = length xs, gk_bw_method = bw, gk_mdl = mn_mdl m,
            gk_bw_factor = None, gk_kde = None, gk_logdens = None \<rparr>"
  proof (cases "xs = []")
    case True
    with m show ?thesis
      by (auto simp: GKdeMdl_init_def GKdeMdl_kde_mdl_def MultinomialMdl_init_Arr1
          multinomial_self_cost_spec_def zero_npfloat_def)
  next
    case False
    with m fail show ?thesis
      by (simp add: GKdeMdl_init_def GKdeMdl_kde_mdl_def quantize_spec)
  qed
  show ?thesis
    unfolding init using m range by (simp add: GKdeMdl_bandwidth_def)
qed

theorem gkde_fallback_witness:
  "gaussian_kde_logdens always_raises (Arr1 [- 0.015, - 0.01, 1.234, 1.239]) ''silverman'' True
     = Inl EstimationFailure
   \<and> \<bar>100 * (- 0.015 :: real)\<bar> < 2 ^ 63 \<and> \<bar>100 * (- 0.01 :: real)\<bar> < 2 ^ 63
   \<and> \<bar>100 * (1.234 :: real)\<bar> < 2 ^ 63 \<and> \<bar>100 * (1.239 :: real)\<bar> < 2 ^ 63
   \<and> (\<exists>g m. GKdeMdl_init always_raises (Arr1 [- 0.015, - 0.01, 1.234, 1.239]) ''silverman''
               = Inr g
        \<and> MultinomialMdl_init (Arr1 [- 1, - 1, 123, 123]) = Inr m
        \<and> gk_mdl g = mn_mdl m \<and> gk_mdl g = Fin (- (2 * ln (1 / 2) + 2 * ln (1 / 2)))
        \<and> GKdeMdl_bandwidth g = None \<and> gk_kde g = None)"
proof -
  have h: "gaussian_kde_logdens always_raises (Arr1 [- 0.015, - 0.01, 1.234, 1.239])
             ''silverman'' True = Inl EstimationFailure"
    by (simp add: gaussian_kde_logdens_def always_raises_def)
  have q: "map quantized_value_spec [- 0.015, - 0.01, 1.234, 1.239] = [- 1, - 1, 123, 123]"
    by (simp add: quantized_value_spec_def truncate_spec_def)
  from gkde_fallback [OF h] obtain g m where
    g: "GKdeMdl_init always_raises (Arr1 [- 0.015, - 0.01, 1.234, 1.239]) ''silverman'' = Inr g"
    and m: "MultinomialMdl_init (Arr1 (map quantized_value_spec [- 0.015, - 0.01, 1.234, 1.239]))
              = Inr m"
    and eq: "gk_mdl g = mn_mdl m"
    and none: "GKdeMdl_bandwidth g = None" "gk_kde g = None"
    by blast
  note m' = m [unfolded q]
  have cost: "mn_mdl m = Fin (- (2 * ln (1 / 2) + 2 * ln (1 / 2)))"
    using m' by (auto simp: MultinomialMdl_init_Arr1 multinomial_self_cost_spec_def)
  have r: "\<bar>100 * (- 0.015 :: real)\<bar> < 2 ^ 63" "\<bar>100 * (- 0.01 :: real)\<bar> < 2 ^ 63"
    "\<bar>100 * (1.234 :: real)\<bar> < 2 ^ 63" "\<bar>100 * (1.239 :: real)\<bar> < 2 ^ 63"
    by simp_all
  have "\<exists>g m. GKdeMdl_init always_raises (Arr1 [- 0.015, - 0.01, 1.234, 1.239]) ''silverman''
               = Inr g
        \<and> MultinomialMdl_init (Arr1 [- 1, - 1, 123, 123]) = Inr m
        \<and> gk_mdl g = mn_mdl m \<and> gk_mdl g = Fin (- (2 * ln (1 / 2) + 2 * ln (1 / 2)))
        \<and> GKdeMdl_bandwidth g = None \<and> gk_kde g = None"
    using g m' eq cost none by (intro exI [of _ g] exI [of _ m]) simp
  with h r show ?thesis by (intro conjI)
qed

text \<open>
  Claim C4 as first stated has the cost equal to that of a \<open>MultinomialMdl\<close> on \<open>x\<close> scaled
  by 100 and truncated to integers, for every \<open>x\<close> on which the fit raises. For the sample
  \<open>[10\<^sup>2\<^sup>0\<^sup>0, 2 * 10\<^sup>2\<^sup>0\<^sup>0]\<close> the scaled and truncated values are the two distinct
  integers \<open>10\<^sup>2\<^sup>0\<^sup>2\<close> and \<open>2 * 10\<^sup>2\<^sup>0\<^sup>2\<close>, with cost \<open>2 log 2\<close>; the 64-bit cast makes both
  \<open>-2\<^sup>6\<^sup>3\<close>, one value repeated twice, with cost \<open>log 2\<close>.
\<close>

theorem fallback_cast_counterexample:
  "gaussian_kde_logdens always_raises (Arr1 [10 ^ 200, 2 * 10 ^ 200]) ''silverman'' True
     = Inl EstimationFailure
   \<and> gk_mdl (projr (GKdeMdl_init always_raises (Arr1 [10 ^ 200, 2 * 10 ^ 200]) ''silverman''))
       = Fin (ln 2)
   \<and> mn_mdl (projr (MultinomialMdl_init
         (Arr1 [real_of_int (truncate_spec (100 * 10 ^ 200)),
                real_of_int (truncate_spec (100 * (2 * 10 ^ 200)))])))
       = Fin (2 * ln 2)
   \<and> Fin (ln 2) \<noteq> Fin (2 * ln 2)"
proof -
  let ?X = "[10 ^ 200, 2 * 10 ^ 200] :: real list"
  let ?T = "[real_of_int (truncate_spec (100 * 10 ^ 200)),
             real_of_int (truncate_spec (100 * (2 * 10 ^ 200)))]"
  have h: "gaussian_kde_logdens always_raises (Arr1 ?X) ''silverman'' True = Inl EstimationFailure"
    by (simp add: gaussian_kde_logdens_def always_raises_def)
  have ne: "?X \<noteq> []" by simp
  have q: "quantize ?X = [- (2 ^ 63), - (2 ^ 63)]"
    by (simp add: quantize_def astype_int_def)
  have c: "multinomial_self_cost_spec [- (2 ^ 63), - (2 ^ 63)] = ln 2"
    by (simp add: multinomial_self_cost_spec_def)
  have g: "gk_mdl (projr (GKdeMdl_init always_raises (Arr1 ?X) ''silverman'')) = Fin (ln 2)"
    unfolding GKdeMdl_init_fallback [OF ne h] q c by simp
  have t: "?T = [10 ^ 202, 2 * 10 ^ 202]"
    by (simp add: truncate_spec_def)
  have d: "multinomial_self_cost_spec [10 ^ 202, 2 * 10 ^ 202] = 2 * ln 2"
    by (simp add: multinomial_self_cost_spec_def ln_div)
  have m: "mn_mdl (projr (MultinomialMdl_init (Arr1 ?T))) = Fin (2 * ln 2)"
    unfolding t MultinomialMdl_init_Arr1 d by simp
  have "ln (2 :: real) \<noteq> 2 * ln 2" using ln_gt_zero [of "2 :: real"] by simp
  then have "Fin (ln 2) \<noteq> Fin (2 * ln 2)" by simp
  with h g m show ?thesis by (intro conjI)
qed

subsection \<open>Counts and probabilities\<close>

lemma sum_list_counts: "sum_list (map (count_list xs) (sort (remdups xs))) = length xs"
proof -
  have "sum_list (map (count_list xs) (sort (remdups xs))) = sum (count_list xs) (set (sort (remdups xs)))"
    by (rule sum_list_distinct_conv_sum_set) simp
  also have "\<dots> = length xs"
    by (simp add: sum_count_set)
  finally show ?thesis .
qed

lemma sum_list_div: "sum_list (map (\<lambda>v. real (f v) / c) us) = real (sum_list (map f us)) / c"
  by (induction us) (simp_all add: add_divide_distrib)

lemma sum_list_ps:
  assumes "xs \<noteq> []"
  shows "sum_list (map (\<lambda>v. real (count_list xs v) / real (length xs)) (sort (remdups xs))) = 1"
  using assms by (simp add: sum_list_div sum_list_counts)

text \<open>
  Claim C8. For every input vector with \<open>n > 0\<close> the fitted probabilities sum to \<open>1\<close>, the
  counts sum to \<open>n\<close>, and every fitted probability is strictly positive, so that
  \<open>-log(p\<^sub>i)\<close> is a finite number.
\<close>

theorem fitted_probabilities:
  "xs \<noteq> [] \<Longrightarrow>
     \<exists>m. MultinomialMdl_init (Arr1 xs) = Inr m
       \<and> sum_list (mn_uniq_val_ps m) = 1
       \<and> sum_list (mn_uniq_val_cnts m) = mn_n m \<and> mn_n m = length xs
       \<and> (\<forall>p\<in>set (mn_uniq_val_ps m). 0 < p \<and> - np_log p = Fin (- ln p))"
  by (auto simp: MultinomialMdl_init_Arr1 sum_list_ps sum_list_counts fitted_p_pos np_log_pos)

theorem fitted_probabilities_witness:
  "[1, 1, 2, 2, 2] \<noteq> ([] :: real list)
   \<and> (\<exists>m. MultinomialMdl_init (Arr1 [1, 1, 2, 2, 2]) = Inr m
       \<and> mn_uniq_val_ps m = [2 / 5, 3 / 5]
       \<and> sum_list (mn_uniq_val_ps m) = 1
       \<and> mn_uniq_val_cnts m = [2, 3]
       \<and> sum_list (mn_uniq_val_cnts m) = mn_n m \<and> mn_n m = 5
       \<and> (\<forall>p\<in>set (mn_uniq_val_ps m). 0 < p \<and> - np_log p = Fin (- ln p)))"
  using fitted_probabilities [of "[1, 1, 2, 2, 2]"]
  by (simp add: MultinomialMdl_init_Arr1)

subsection \<open>The query cost\<close>

lemma zip_map_same: "zip us (map f us) = map (\<lambda>v. (v, f v)) us"
  by (induction us) simp_all

lemma np_unique_eq:
  "np_unique q = (sort (remdups q), map (count_list q) (sort (remdups q)))"
  by (simp add: np_unique_def Let_def)

lemma np_max_Max:
  assumes "q \<noteq> []"
  shows "np_max q = Inr (Max (set q))"
proof -
  from assms obtain a l where q: "q = a # l" by (cases q) auto
  have "fold max l a = Max (set (a # l))" by (simp only: Max.set_eq_fold)
  then show ?thesis by (simp add: q np_max_def)
qed

lemma Max_abs_twice:
  assumes "q \<noteq> []"
  shows "Max ((\<lambda>v. \<bar>v\<bar> * 2) ` set q) = Max (abs ` set q) * (2 :: real)"
proof -
  have "mono (\<lambda>a :: real. a * 2)" by (simp add: mono_def)
  then have "Max (abs ` set q) * 2 = Max ((\<lambda>a. a * 2) ` (abs ` set q))"
    using assms by (intro mono_Max_commute) simp_all
  then show ?thesis by (simp add: image_image)
qed

lemma np_max_twice:
  "q \<noteq> [] \<Longrightarrow> np_max (map (\<lambda>v. \<bar>v\<bar> * 2) q) = Inr (Max (abs ` set q) * 2)"
  by (simp add: np_max_Max Max_abs_twice)

lemma encode_loop_no_adj:
  "encode_loop self False unif (map (\<lambda>v. (v, c v)) us) acc =
     Inr (acc + sum_list (map (\<lambda>v. (case mn_uniq_val_p_lut self v of Some p \<Rightarrow> - np_log p | None \<Rightarrow> unif)
                                 * Fin (real (c v))) us))"
  by (induction us arbitrary: acc) (simp_all add: uval_mdl_def add.assoc split: option.splits)

lemma encode_no_adj: "encode self (Arr1 q) False = Inr (encode_cost_spec self q)"
proof (cases "q = []")
  case True
  then show ?thesis by (simp add: encode_def encode_cost_spec_def zero_npfloat_def)
next
  case False
  have "sum_list (map (\<lambda>v. (case mn_uniq_val_p_lut self v of Some p \<Rightarrow> - np_log p
                               | None \<Rightarrow> uniform_fallback q) * Fin (real (count_list q v)))
                     (sort (remdups q)))
        = (\<Sum>v\<in>set (sort (remdups q)).
             (case mn_uniq_val_p_lut self v of Some p \<Rightarrow> - np_log p
              | None \<Rightarrow> uniform_fallback q) * Fin (real (count_list q v)))"
    by (rule sum_list_distinct_conv_sum_set) simp
  with False show ?thesis
    by (simp add: encode_def encode_cost_spec_def Let_def np_max_twice np_unique_eq zip_map_same
        encode_loop_no_adj flip: uniform_fallback_def)
qed

lemma fitted_lut:
  "MultinomialMdl_init (Arr1 xs) = Inr m \<Longrightarrow>
     mn_uniq_val_p_lut m v =
       (if v \<in> set xs then Some (real (count_list xs v) / real (length xs)) else None)"
  by (auto simp: MultinomialMdl_init_Arr1 map_of_zip_map)

text \<open>
  Claim C5. For a fitted \<open>MultinomialMdl\<close> and a query vector \<open>q\<close>, \<open>encode\<close> with
  \<open>use_adjescent_when_absent = False\<close> returns \<open>0\<close> when \<open>q\<close> is empty,
  \<open>q.size * log(max(|q|) * 2)\<close> when the model has \<open>n = 0\<close>, and otherwise the sum over
  the distinct query values of cost times multiplicity, with cost \<open>-log(p\<^sub>v)\<close> for a value
  in the lookup table and the uniform fallback for an absent one. The lookup table holds
  exactly the sample's values, each with its relative frequency.
\<close>

theorem encode_uniform_cost:
  "MultinomialMdl_init (Arr1 xs) = Inr m \<Longrightarrow>
     encode m (Arr1 q) False = Inr (encode_cost_spec m q)
     \<and> mn_n m = length xs
     \<and> (\<forall>v. mn_uniq_val_p_lut m v =
           (if v \<in> set xs then Some (real (count_list xs v) / real (length xs)) else None))"
  using fitted_lut [of xs m]
  by (auto simp: encode_no_adj MultinomialMdl_init_Arr1)

theorem encode_uniform_cost_witness:
  "(\<exists>m. MultinomialMdl_init (Arr1 [1, 1, 2]) = Inr m
      \<and> encode m (Arr1 [1, 3, 3]) False = Inr (Fin (- ln (2 / 3) + ln 6 * 2))
      \<and> encode m (Arr1 []) False = Inr (Fin 0))
   \<and> (\<exists>m. MultinomialMdl_init (Arr1 []) = Inr m
      \<and> encode m (Arr1 [1, 3, 3]) False = Inr (Fin (3 * ln 6)))"
proof -
  obtain m where m: "MultinomialMdl_init (Arr1 [1, 1, 2]) = Inr m"
    by (simp add: MultinomialMdl_init_Arr1)
  obtain e where e: "MultinomialMdl_init (Arr1 []) = Inr e"
    by (simp add: MultinomialMdl_init_Arr1)
  have "encode m (Arr1 [1, 3, 3]) False = Inr (Fin (- ln (2 / 3) + ln 6 * 2))"
    using encode_uniform_cost [OF m, of "[1, 3, 3]"]
    by (simp add: encode_cost_spec_def uniform_fallback_def np_log_def)
  moreover have "encode m (Arr1 []) False = Inr (Fin 0)"
    using encode_uniform_cost [OF m, of "[]"]
    by (simp add: encode_cost_spec_def)
  moreover have "encode e (Arr1 [1, 3, 3]) False = Inr (Fin (3 * ln 6))"
    using encode_uniform_cost [OF e, of "[1, 3, 3]"]
    by (simp add: encode_cost_spec_def uniform_fallback_def np_log_def)
  ultimately show ?thesis using m e by blast
qed

subsection \<open>Indexing and the insertion index\<close>

lemma py_get_nat: "i < length xs \<Longrightarrow> py_get xs (int i) = Inr (xs ! i)"
  by (simp add: py_get_def)

lemma py_get_pred: "0 < i \<Longrightarrow> i \<le> length xs \<Longrightarrow> py_get xs (int i - 1) = Inr (xs ! (i - 1))"
  using py_get_nat [of "i - 1" xs] by (simp add: of_nat_diff)

lemma py_get_zero: "xs \<noteq> [] \<Longrightarrow> py_get xs 0 = Inr (xs ! 0)"
  using py_get_nat [of 0 xs] by simp

lemma py_get_last: "xs \<noteq> [] \<Longrightarrow> py_get xs (- 1) = Inr (last xs)"
proof -
  assume ne: "xs \<noteq> []"
  then have "nat (int (length xs) + - 1) = length xs - 1" by (cases xs) simp_all
  with ne show ?thesis by (cases xs) (simp_all add: py_get_def last_conv_nth)
qed

text \<open>
  The insertion index on a sorted list: everything before it is below the value, nothing
  from it on is.
\<close>

lemma searchsorted_le_length: "np_searchsorted u v \<le> length u"
  by (simp add: np_searchsorted_def length_takeWhile_le)

lemma searchsorted_below: "j < np_searchsorted u v \<Longrightarrow> u ! j < v"
proof -
  assume j: "j < np_searchsorted u v"
  then have "takeWhile (\<lambda>a. a < v) u ! j \<in> set (takeWhile (\<lambda>a. a < v) u)"
    by (simp add: np_searchsorted_def)
  then have "takeWhile (\<lambda>a. a < v) u ! j < v"
    by (blast dest: set_takeWhileD)
  with j show ?thesis by (simp add: np_searchsorted_def takeWhile_nth)
qed

lemma searchsorted_above:
  assumes "sorted u" "np_searchsorted u v \<le> j" "j < length u"
  shows "v \<le> u ! j"
proof -
  let ?i = "np_searchsorted u v"
  from assms have i: "?i < length u" by simp
  then have "\<not> u ! ?i < v"
    unfolding np_searchsorted_def by (rule nth_length_takeWhile)
  moreover have "u ! ?i \<le> u ! j"
    using assms by (intro sorted_nth_mono) simp_all
  ultimately show ?thesis by simp
qed

lemma sorted_nth0_Min: "sorted u \<Longrightarrow> u \<noteq> [] \<Longrightarrow> u ! 0 = Min (set u)"
  by (cases u) (auto intro!: Min_eqI [symmetric])

lemma sorted_last_Max_set: "sorted u \<Longrightarrow> u \<noteq> [] \<Longrightarrow> last u = Max (set u)"
proof -
  assume s: "sorted u" and ne: "u \<noteq> []"
  have "\<And>y. y \<in> set u \<Longrightarrow> y \<le> last u"
  proof -
    fix y assume "y \<in> set u"
    then obtain j where "j < length u" "u ! j = y" by (auto simp: in_set_conv_nth)
    with s ne show "y \<le> last u"
      using sorted_nth_mono [of u j "length u - 1"] by (simp add: last_conv_nth)
  qed
  with ne show ?thesis by (intro Max_eqI [symmetric]) simp_all
qed

lemma searchsorted_zero_iff:
  assumes "sorted u" "u \<noteq> []" "v \<notin> set u"
  shows "np_searchsorted u v = 0 \<longleftrightarrow> v < Min (set u)"
proof
  assume z: "np_searchsorted u v = 0"
  from assms have "v \<le> u ! 0" using z by (intro searchsorted_above) simp_all
  moreover have "u ! 0 \<in> set u" using assms by simp
  ultimately show "v < Min (set u)"
    using assms by (metis sorted_nth0_Min order_le_less)
next
  assume lt: "v < Min (set u)"
  show "np_searchsorted u v = 0"
  proof (rule ccontr)
    assume "np_searchsorted u v \<noteq> 0"
    then have "u ! 0 < v" by (intro searchsorted_below) simp
    moreover have "u ! 0 = Min (set u)" using assms by (intro sorted_nth0_Min)
    ultimately show False using lt by simp
  qed
qed

lemma searchsorted_top_iff:
  assumes "sorted u" "u \<noteq> []"
  shows "length u \<le> np_searchsorted u v \<longleftrightarrow> Max (set u) < v"
proof
  assume "length u \<le> np_searchsorted u v"
  then have "length u - 1 < np_searchsorted u v" using assms by (cases u) simp_all
  then have "u ! (length u - 1) < v" by (rule searchsorted_below)
  with assms show "Max (set u) < v" by (simp add: sorted_last_Max_set [symmetric] last_conv_nth)
next
  assume gt: "Max (set u) < v"
  show "length u \<le> np_searchsorted u v"
  proof (rule ccontr)
    assume "\<not> length u \<le> np_searchsorted u v"
    then have i: "np_searchsorted u v < length u" by simp
    with assms have "v \<le> u ! np_searchsorted u v" by (intro searchsorted_above) simp_all
    moreover have "u ! np_searchsorted u v \<le> Max (set u)" using i by simp
    ultimately show False using gt by simp
  qed
qed

lemma left_neighbour:
  assumes "sorted u" "0 < np_searchsorted u v"
  shows "u ! (np_searchsorted u v - 1) = Max {a \<in> set u. a < v}"
proof (rule Max_eqI [symmetric])
  let ?i = "np_searchsorted u v"
  show "finite {a \<in> set u. a < v}" by simp
  have il: "?i \<le> length u" by (rule searchsorted_le_length)
  show "u ! (?i - 1) \<in> {a \<in> set u. a < v}"
    using assms il searchsorted_below [of "?i - 1" u v] by simp
  fix y assume "y \<in> {a \<in> set u. a < v}"
  then obtain j where j: "j < length u" "u ! j = y" and yv: "y < v"
    by (auto simp: in_set_conv_nth)
  have "j < ?i"
  proof (rule ccontr)
    assume "\<not> j < ?i"
    with assms j have "v \<le> u ! j" by (intro searchsorted_above) simp_all
    with j yv show False by simp
  qed
  then have "u ! j \<le> u ! (?i - 1)"
    using assms il by (intro sorted_nth_mono) simp_all
  with j show "y \<le> u ! (?i - 1)" by simp
qed

lemma right_neighbour:
  assumes "sorted u" "np_searchsorted u v < length u" "v \<notin> set u"
  shows "u ! np_searchsorted u v = Min {a \<in> set u. v < a}"
proof (rule Min_eqI [symmetric])
  let ?i = "np_searchsorted u v"
  show "finite {a \<in> set u. v < a}" by simp
  have "v \<le> u ! ?i" using assms by (intro searchsorted_above) simp_all
  moreover have "u ! ?i \<in> set u" using assms by simp
  ultimately show "u ! ?i \<in> {a \<in> set u. v < a}"
    using assms(3) by (auto simp: order_le_less)
  fix y assume "y \<in> {a \<in> set u. v < a}"
  then obtain j where j: "j < length u" "u ! j = y" and yv: "v < y"
    by (auto simp: in_set_conv_nth)
  have "?i \<le> j"
  proof (rule ccontr)
    assume "\<not> ?i \<le> j"
    then have "u ! j < v" by (intro searchsorted_below) simp
    with j yv show False by simp
  qed
  then have "u ! ?i \<le> u ! j" using assms j by (intro sorted_nth_mono) simp_all
  with j show "u ! ?i \<le> y" by simp
qed

subsection \<open>The adjacent-value policy\<close>

lemma adjacent_p_fitted:
  fixes xs :: "real list" and v :: real
  assumes m: "MultinomialMdl_init (Arr1 xs) = Inr m" and ne: "xs \<noteq> []"
  defines "u \<equiv> sort (remdups xs)"
  defines "P \<equiv> (\<lambda>a. real (count_list xs a) / real (length xs))"
  defines "i \<equiv> np_searchsorted (sort (remdups xs)) v"
  shows "adjacent_p m v = Inr
     (if i = 0 then P (u ! 0)
      else if length u \<le> i then P (last u)
      else if \<bar>u ! (i - 1) - v\<bar> < \<bar>u ! i - v\<bar> then P (u ! (i - 1))
      else if \<bar>u ! i - v\<bar> < \<bar>u ! (i - 1) - v\<bar> then P (u ! i)
      else max (P (u ! (i - 1))) (P (u ! i)))"
proof -
  have vals: "mn_uniq_vals m = u" and ps: "mn_uniq_val_ps m = map P u"
    and nu: "mn_n_uniq m = length u"
    using m by (auto simp: MultinomialMdl_init_Arr1 u_def P_def length_remdups_card_conv)
  have "set u = set xs" by (simp add: u_def)
  with ne have une: "u \<noteq> []" by auto
  have i: "np_searchsorted u v = i" by (simp add: i_def u_def)
  show ?thesis
  proof (cases "i = 0")
    case True
    with une show ?thesis
      by (simp add: adjacent_p_def vals i ps py_get_zero)
  next
    case False
    note i0 = this
    show ?thesis
    proof (cases "length u \<le> i")
      case True
      with i0 une show ?thesis
        by (simp add: adjacent_p_def vals i ps nu py_get_last last_map)
    next
      case False
      then have "i < length u" "0 < i" "i \<le> length u" using i0 by simp_all
      then show ?thesis
        by (simp add: adjacent_p_def vals i ps nu py_get_nat py_get_pred Let_def)
    qed
  qed
qed

lemma adjacent_p_spec:
  fixes xs :: "real list" and v :: real
  assumes m: "MultinomialMdl_init (Arr1 xs) = Inr m" and ne: "xs \<noteq> []"
    and absent: "v \<notin> set xs"
  shows "adjacent_p m v = Inr (adjacent_probability_spec xs v)"
proof -
  define u where "u = sort (remdups xs)"
  define i where "i = np_searchsorted u v"
  have su: "sorted u" and set_u: "set u = set xs" by (simp_all add: u_def)
  from ne set_u have une: "u \<noteq> []" by auto
  from absent set_u have vu: "v \<notin> set u" by simp
  have lo: "i = 0 \<longleftrightarrow> v < Min (set xs)"
    using searchsorted_zero_iff [OF su une vu] by (simp add: i_def set_u)
  have hi: "length u \<le> i \<longleftrightarrow> Max (set xs) < v"
    using searchsorted_top_iff [OF su une, of v] by (simp add: i_def set_u)
  have first: "u ! 0 = Min (set xs)"
    using sorted_nth0_Min [OF su une] by (simp add: set_u)
  have lst: "last u = Max (set xs)"
    using sorted_last_Max_set [OF su une] by (simp add: set_u)
  have filt_l: "set (filter (\<lambda>a. a < v) xs) = {a \<in> set u. a < v}"
    and filt_r: "set (filter (\<lambda>a. v < a) xs) = {a \<in> set u. v < a}"
    by (auto simp: set_u)
  have left: "0 < i \<Longrightarrow> u ! (i - 1) = Max (set (filter (\<lambda>a. a < v) xs))"
    unfolding filt_l i_def by (rule left_neighbour [OF su])
  have right: "i < length u \<Longrightarrow> u ! i = Min (set (filter (\<lambda>a. v < a) xs))"
    unfolding filt_r i_def using vu by (intro right_neighbour [OF su])
  show ?thesis
  proof (cases "i = 0")
    case True
    with lo show ?thesis
      using adjacent_p_fitted [OF m ne, of v]
      by (simp add: u_def [symmetric] i_def [symmetric] first adjacent_probability_spec_def)
  next
    case i0: False
    show ?thesis
    proof (cases "length u \<le> i")
      case True
      with i0 lo hi show ?thesis
        using adjacent_p_fitted [OF m ne, of v]
        by (simp add: u_def [symmetric] i_def [symmetric] lst adjacent_probability_spec_def)
    next
      case False
      with i0 have "0 < i" "i < length u" by simp_all
      with left right have l: "u ! (i - 1) = Max (set (filter (\<lambda>a. a < v) xs))"
        and r: "u ! i = Min (set (filter (\<lambda>a. v < a) xs))" by simp_all
      define P where "P = (\<lambda>a. real (count_list xs a) / real (length xs))"
      have code: "adjacent_p m v = Inr
         (if \<bar>u ! (i - 1) - v\<bar> < \<bar>u ! i - v\<bar> then P (u ! (i - 1))
          else if \<bar>u ! i - v\<bar> < \<bar>u ! (i - 1) - v\<bar> then P (u ! i)
          else max (P (u ! (i - 1))) (P (u ! i)))"
        using adjacent_p_fitted [OF m ne, of v] False i0
        by (simp add: u_def [symmetric] i_def [symmetric] P_def)
      have "\<not> v < Min (set xs)" "\<not> Max (set xs) < v"
        using False i0 lo hi by simp_all
      then have spec: "adjacent_probability_spec xs v =
         (if \<bar>Max (set (filter (\<lambda>a. a < v) xs)) - v\<bar> < \<bar>Min (set (filter (\<lambda>a. v < a) xs)) - v\<bar>
          then P (Max (set (filter (\<lambda>a. a < v) xs)))
          else if \<bar>Min (set (filter (\<lambda>a. v < a) xs)) - v\<bar> < \<bar>Max (set (filter (\<lambda>a. a < v) xs)) - v\<bar>
          then P (Min (set (filter (\<lambda>a. v < a) xs)))
          else max (P (Max (set (filter (\<lambda>a. a < v) xs)))) (P (Min (set (filter (\<lambda>a. v < a) xs)))))"
        unfolding adjacent_probability_spec_def Let_def P_def by (simp only: if_False)
      show ?thesis unfolding code spec l r ..
    qed
  qed
qed

lemma adjacent_p_in_sample:
  fixes xs :: "real list" and v :: real
  assumes m: "MultinomialMdl_init (Arr1 xs) = Inr m" and ne: "xs \<noteq> []"
  shows "\<exists>a\<in>set xs. adjacent_p m v = Inr (real (count_list xs a) / real (length xs))"
proof -
  define u where "u = sort (remdups xs)"
  define i where "i = np_searchsorted u v"
  define P where "P = (\<lambda>a. real (count_list xs a) / real (length xs))"
  have set_u: "set u = set xs" by (simp add: u_def)
  from ne set_u have une: "u \<noteq> []" by auto
  have code: "adjacent_p m v = Inr
     (if i = 0 then P (u ! 0)
      else if length u \<le> i then P (last u)
      else if \<bar>u ! (i - 1) - v\<bar> < \<bar>u ! i - v\<bar> then P (u ! (i - 1))
      else if \<bar>u ! i - v\<bar> < \<bar>u ! (i - 1) - v\<bar> then P (u ! i)
      else max (P (u ! (i - 1))) (P (u ! i)))"
    using adjacent_p_fitted [OF m ne, of v]
    by (simp add: u_def [symmetric] i_def [symmetric] P_def)
  have a0: "u ! 0 \<in> set xs" using une set_u nth_mem [of 0 u] by simp
  have al: "last u \<in> set xs" using une set_u last_in_set [of u] by simp
  have ai: "i < length u \<Longrightarrow> u ! i \<in> set xs" using set_u nth_mem [of i u] by simp
  have ap: "i < length u \<Longrightarrow> u ! (i - 1) \<in> set xs" using set_u nth_mem [of "i - 1" u] by simp
  have mx: "\<And>a b. max (P a) (P b) = P a \<or> max (P a) (P b) = P b" by (simp add: max_def)
  consider (lo) "i = 0" | (hi) "i \<noteq> 0" "length u \<le> i" | (mid) "i \<noteq> 0" "i < length u"
    by linarith
  then show ?thesis
  proof cases
    case lo
    with code a0 show ?thesis unfolding P_def by auto
  next
    case hi
    with code al show ?thesis unfolding P_def by auto
  next
    case mid
    then have "adjacent_p m v = Inr (P (u ! (i - 1))) \<or> adjacent_p m v = Inr (P (u ! i))"
      using code mx [of "u ! (i - 1)" "u ! i"] by (auto split: if_splits)
    with ai ap mid show ?thesis unfolding P_def by auto
  qed
qed

lemma fitted_p_le_one: "real (count_list xs a) / real (length xs) \<le> 1"
proof (cases "xs = []")
  case False
  have "count_list xs a \<le> length xs" by (rule count_le_length)
  with False show ?thesis by simp
qed simp

text \<open>
  What the loop body charges when adjacent values are used: always \<open>-log p\<close> of a fitted
  probability.
\<close>

lemma uval_mdl_adjacent:
  fixes xs :: "real list" and v :: real
  assumes m: "MultinomialMdl_init (Arr1 xs) = Inr m" and ne: "xs \<noteq> []"
  shows "\<exists>a\<in>set xs. uval_mdl m True unif v =
           Inr (Fin (- ln (real (count_list xs a) / real (length xs))))"
proof (cases "v \<in> set xs")
  case True
  then have "uval_mdl m True unif v = Inr (Fin (- ln (real (count_list xs v) / real (length xs))))"
    using fitted_lut [OF m, of v] fitted_p_pos [of v xs]
    by (simp add: uval_mdl_def np_log_pos)
  with True show ?thesis by blast
next
  case False
  obtain a where a: "a \<in> set xs"
    and p: "adjacent_p m v = Inr (real (count_list xs a) / real (length xs))"
    using adjacent_p_in_sample [OF m ne, of v] by blast
  have "uval_mdl m True unif v = Inr (Fin (- ln (real (count_list xs a) / real (length xs))))"
    using fitted_lut [OF m, of v] False p fitted_p_pos [OF a]
    by (simp add: uval_mdl_def np_log_pos)
  with a show ?thesis by blast
qed

lemma encode_loop_costs:
  "(\<And>v. v \<in> set us \<Longrightarrow> uval_mdl self adj unif v = Inr (c v)) \<Longrightarrow>
     encode_loop self adj unif (map (\<lambda>v. (v, k v)) us) acc =
       Inr (acc + sum_list (map (\<lambda>v. c v * Fin (real (k v))) us))"
  by (induction us arbitrary: acc) (simp_all add: add.assoc)

lemma encode_costs:
  assumes "q \<noteq> []" "mn_n self \<noteq> 0"
    and "\<And>v. v \<in> set q \<Longrightarrow> uval_mdl self adj (uniform_fallback q) v = Inr (Fin (c v))"
  shows "encode self (Arr1 q) adj = Inr (Fin (\<Sum>v\<in>set q. c v * real (count_list q v)))"
proof -
  have "encode self (Arr1 q) adj =
          encode_loop self adj (uniform_fallback q)
            (map (\<lambda>v. (v, count_list q v)) (sort (remdups q))) 0"
    using assms(1,2) by (simp add: encode_def Let_def np_max_twice np_unique_eq zip_map_same
        flip: uniform_fallback_def)
  also have "\<dots> = Inr (0 + sum_list (map (\<lambda>v. Fin (c v) * Fin (real (count_list q v)))
                                         (sort (remdups q))))"
    using assms(3) by (intro encode_loop_costs) simp
  also have "sum_list (map (\<lambda>v. Fin (c v) * Fin (real (count_list q v))) (sort (remdups q)))
             = Fin (sum_list (map (\<lambda>v. c v * real (count_list q v)) (sort (remdups q))))"
    by (simp add: Fin_sum_list)
  also have "sum_list (map (\<lambda>v. c v * real (count_list q v)) (sort (remdups q)))
             = (\<Sum>v\<in>set (sort (remdups q)). c v * real (count_list q v))"
    by (rule sum_list_distinct_conv_sum_set) simp
  finally show ?thesis by simp
qed

text \<open>
  Claim C6, as amended. For a fitted \<open>MultinomialMdl\<close> with \<open>n > 0\<close> and a query value \<open>v\<close>
  absent from the lookup table, \<open>encode\<close> with \<open>use_adjescent_when_absent = True\<close> charges
  \<open>-log p\<close>, where \<open>p\<close> is: the probability of the smallest fitted value when \<open>v\<close> is below
  it; the probability of the largest fitted value when \<open>v\<close> is above it; and otherwise the
  probability of the nearer of the two neighbouring fitted values, or on a tie the larger
  of the two neighbours' probabilities. It is a fitted probability, never the uniform
  fallback.
\<close>

theorem adjacent_cost:
  "xs \<noteq> [] \<Longrightarrow> v \<notin> set xs \<Longrightarrow> MultinomialMdl_init (Arr1 xs) = Inr m \<Longrightarrow>
     adjacent_p m v = Inr (adjacent_probability_spec xs v)
     \<and> adjacent_probability_spec xs v \<in> set (mn_uniq_val_ps m)
     \<and> uval_mdl m True unif v = Inr (Fin (- ln (adjacent_probability_spec xs v)))
     \<and> encode m (Arr1 [v]) True = Inr (Fin (- ln (adjacent_probability_spec xs v)))"
proof -
  assume ne: "xs \<noteq> []" and absent: "v \<notin> set xs" and m: "MultinomialMdl_init (Arr1 xs) = Inr m"
  have p: "adjacent_p m v = Inr (adjacent_probability_spec xs v)"
    by (rule adjacent_p_spec [OF m ne absent])
  obtain a where a: "a \<in> set xs"
    and pa: "adjacent_p m v = Inr (real (count_list xs a) / real (length xs))"
    using adjacent_p_in_sample [OF m ne, of v] by blast
  from p pa have eq: "adjacent_probability_spec xs v = real (count_list xs a) / real (length xs)"
    by simp
  have pos: "0 < adjacent_probability_spec xs v"
    unfolding eq by (rule fitted_p_pos [OF a])
  have mem: "adjacent_probability_spec xs v \<in> set (mn_uniq_val_ps m)"
    using m a unfolding eq by (auto simp: MultinomialMdl_init_Arr1)
  have cost: "\<And>unif. uval_mdl m True unif v = Inr (Fin (- ln (adjacent_probability_spec xs v)))"
    using fitted_lut [OF m, of v] absent p pos by (simp add: uval_mdl_def np_log_pos)
  have n: "mn_n m \<noteq> 0" using m ne by (auto simp: MultinomialMdl_init_Arr1)
  have "encode m (Arr1 [v]) True = Inr (Fin (\<Sum>w\<in>set [v].
          - ln (adjacent_probability_spec xs w) * real (count_list [v] w)))"
    using n cost by (intro encode_costs) simp_all
  then have "encode m (Arr1 [v]) True = Inr (Fin (- ln (adjacent_probability_spec xs v)))"
    by simp
  with p mem cost show ?thesis by simp
qed

theorem adjacent_cost_witness:
  "[1, 1, 3] \<noteq> ([] :: real list) \<and> (2 :: real) \<notin> set [1, 1, 3]
   \<and> (\<exists>m. MultinomialMdl_init (Arr1 [1, 1, 3]) = Inr m
        \<and> adjacent_p m 2 = Inr (2 / 3)
        \<and> encode m (Arr1 [2]) True = Inr (Fin (- ln (2 / 3))))"
proof -
  obtain m where m: "MultinomialMdl_init (Arr1 [1, 1, 3]) = Inr m"
    by (simp add: MultinomialMdl_init_Arr1)
  have s: "adjacent_probability_spec [1, 1, 3] 2 = 2 / 3"
    by (simp add: adjacent_probability_spec_def)
  show ?thesis
    using adjacent_cost [of "[1, 1, 3]" 2 m "Fin 0"] m by (simp add: s)
qed

text \<open>
  Claim C6 as first stated takes the smallest fitted probability for a value below the
  smallest fitted value. For the sample \<open>[1, 1, 2]\<close> the probabilities are \<open>2/3\<close> and \<open>1/3\<close>;
  the query value \<open>0\<close> is charged \<open>-log(2/3)\<close>, the probability of the smallest value
  \<open>1\<close>, and not \<open>-log(1/3)\<close>.
\<close>

theorem adjacent_below_minimum_counterexample:
  "fit_encode (Arr1 [1, 1, 2]) (Arr1 [0]) True = Inr (Fin (- ln (2 / 3)))
   \<and> (0 :: real) < Min (set [1, 1, 2])
   \<and> Min (set (mn_uniq_val_ps (projr (MultinomialMdl_init (Arr1 [1, 1, 2]))))) = 1 / 3
   \<and> fit_encode (Arr1 [1, 1, 2]) (Arr1 [0]) True \<noteq> Inr (- np_log (1 / 3))"
proof -
  have e: "fit_encode (Arr1 [1, 1, 2]) (Arr1 [0]) True = Inr (Fin (- ln (2 / 3)))"
    by (simp add: fit_encode_def MultinomialMdl_init_Arr1 encode_def np_unique_eq uval_mdl_def
        adjacent_p_def np_searchsorted_def py_get_def np_max_def np_log_def zero_npfloat_def)
  have "ln (2 / 3 :: real) \<noteq> ln (1 / 3)" by simp
  then have "Inr (Fin (- ln (2 / 3))) \<noteq> (Inr (- np_log (1 / 3)) :: error + npfloat)"
    by (simp add: np_log_def)
  with e show ?thesis by (simp add: MultinomialMdl_init_Arr1)
qed

subsection \<open>Signs of the costs\<close>

lemma neg_ln_fitted_nonneg:
  "v \<in> set xs \<Longrightarrow> 0 \<le> - ln (real (count_list xs v) / real (length xs))"
  using fitted_p_pos [of v xs] fitted_p_le_one [of xs v] by simp

lemma multinomial_self_cost_nonneg: "0 \<le> multinomial_self_cost_spec xs"
proof -
  have "0 \<le> (\<Sum>v\<in>set xs. - ln (real (count_list xs v) / real (length xs)) * real (count_list xs v))"
    by (intro sum_nonneg mult_nonneg_nonneg neg_ln_fitted_nonneg) simp_all
  moreover have "xs \<noteq> [] \<Longrightarrow> 0 \<le> ln (real (length xs))"
    by (cases xs) simp_all
  ultimately show ?thesis
    by (auto simp: multinomial_self_cost_spec_def Let_def)
qed

lemma zero_indicator_cost_nonneg:
  assumes "k \<le> n"
  shows "0 \<le> zero_indicator_cost_spec n k"
proof (cases "0 < k \<and> k < n")
  case True
  then have p: "0 < real k / real n" "real k / real n < 1" by simp_all
  then have "ln (real k / real n) \<le> 0" "ln (1 - real k / real n) \<le> 0" by simp_all
  then have "0 \<le> - (real k * ln (real k / real n))"
    and "0 \<le> - (real (n - k) * ln (1 - real k / real n))"
    by (simp_all add: mult_nonneg_nonpos)
  moreover have "0 \<le> ln (3 :: real)" by simp
  ultimately have "0 \<le> ln 3 - real k * ln (real k / real n) - real (n - k) * ln (1 - real k / real n)"
    by linarith
  with True show ?thesis by (simp add: zero_indicator_cost_spec_def Let_def)
next
  case False
  with assms show ?thesis by (auto simp: zero_indicator_cost_spec_def)
qed

lemma GKdeMdl_fallback_mdl:
  assumes "xs = [] \<or> (\<exists>e. gaussian_kde_logdens P (Arr1 xs) bw True = Inl e)"
  shows "\<exists>g. GKdeMdl_init P (Arr1 xs) bw = Inr g
           \<and> gk_mdl g = Fin (multinomial_self_cost_spec (quantize xs))
           \<and> gk_bw_factor g = None \<and> gk_kde g = None"
  using assms
  by (auto simp: GKdeMdl_init_def GKdeMdl_kde_mdl_def MultinomialMdl_init_Arr1
      quantize_def multinomial_self_cost_spec_def zero_npfloat_def)

lemma uniform_fallback_nonneg:
  assumes "q \<noteq> []" "1 / 2 \<le> Max (abs ` set q)"
  shows "uniform_fallback q = Fin (ln (Max (abs ` set q) * 2))" "0 \<le> ln (Max (abs ` set q) * 2)"
  using assms by (simp_all add: uniform_fallback_def np_log_def)

lemma encode_nonneg:
  fixes xs q :: "real list"
  assumes m: "MultinomialMdl_init (Arr1 xs) = Inr m"
    and cond: "q = [] \<or> (xs \<noteq> [] \<and> (adj \<or> set q \<subseteq> set xs)) \<or> 1 / 2 \<le> Max (abs ` set q)"
  shows "\<exists>r. encode m (Arr1 q) adj = Inr (Fin r) \<and> 0 \<le> r"
proof (cases "q = []")
  case True
  then show ?thesis by (simp add: encode_def zero_npfloat_def)
next
  case q: False
  have n: "mn_n m = length xs" using m by (auto simp: MultinomialMdl_init_Arr1)
  show ?thesis
  proof (cases "xs = []")
    case True
    with cond q have big: "1 / 2 \<le> Max (abs ` set q)" by simp
    have "encode m (Arr1 q) adj = Inr (Fin (real (length q)) * uniform_fallback q)"
      using q True n by (simp add: encode_def Let_def np_max_twice flip: uniform_fallback_def)
    also have "\<dots> = Inr (Fin (real (length q) * ln (Max (abs ` set q) * 2)))"
      by (simp add: uniform_fallback_nonneg(1) [OF q big])
    finally show ?thesis
      using uniform_fallback_nonneg(2) [OF q big] by simp
  next
    case xs: False
    have each: "\<exists>c. uval_mdl m adj (uniform_fallback q) v = Inr (Fin c) \<and> 0 \<le> c"
      if v: "v \<in> set q" for v
    proof (cases "adj")
      case True
      obtain a where a: "a \<in> set xs"
        and "uval_mdl m True (uniform_fallback q) v
              = Inr (Fin (- ln (real (count_list xs a) / real (length xs))))"
        using uval_mdl_adjacent [OF m xs] by blast
      with True show ?thesis using neg_ln_fitted_nonneg [OF a] by auto
    next
      case False
      show ?thesis
      proof (cases "v \<in> set xs")
        case True
        then have "uval_mdl m adj (uniform_fallback q) v
              = Inr (Fin (- ln (real (count_list xs v) / real (length xs))))"
          using fitted_lut [OF m, of v] fitted_p_pos [of v xs]
          by (simp add: uval_mdl_def np_log_pos)
        then show ?thesis using neg_ln_fitted_nonneg [OF True] by auto
      next
        case absent: False
        with cond q xs False v have big: "1 / 2 \<le> Max (abs ` set q)" by auto
        have "uval_mdl m adj (uniform_fallback q) v = Inr (uniform_fallback q)"
          using fitted_lut [OF m, of v] absent False by (simp add: uval_mdl_def)
        then show ?thesis
          using uniform_fallback_nonneg [OF q big] by auto
      qed
    qed
    then obtain c where c: "\<And>v. v \<in> set q \<Longrightarrow>
        uval_mdl m adj (uniform_fallback q) v = Inr (Fin (c v)) \<and> 0 \<le> c v"
      by metis
    have "encode m (Arr1 q) adj = Inr (Fin (\<Sum>v\<in>set q. c v * real (count_list q v)))"
      using q xs n c by (intro encode_costs) simp_all
    moreover have "0 \<le> (\<Sum>v\<in>set q. c v * real (count_list q v))"
      using c by (intro sum_nonneg mult_nonneg_nonneg) simp_all
    ultimately show ?thesis by blast
  qed
qed

text \<open>
  Claim C10. For a fitted \<open>MultinomialMdl\<close> with \<open>n > 0\<close> and a non-empty query, \<open>encode\<close>
  with \<open>use_adjescent_when_absent = True\<close> charges every distinct query value \<open>-log p\<close> for
  some fitted probability \<open>p\<close>; the result is a finite, non-negative sum of such terms
  times the multiplicities, whatever the uniform fallback is (for an all-zero query the
  fallback is \<open>-inf\<close>).
\<close>

theorem adjacent_encode_finite:
  "xs \<noteq> [] \<Longrightarrow> q \<noteq> [] \<Longrightarrow> MultinomialMdl_init (Arr1 xs) = Inr m \<Longrightarrow>
     \<exists>p. (\<forall>v\<in>set q. p v \<in> set (mn_uniq_val_ps m) \<and> 0 < p v \<and> p v \<le> 1)
        \<and> encode m (Arr1 q) True = Inr (Fin (\<Sum>v\<in>set q. - ln (p v) * real (count_list q v)))
        \<and> 0 \<le> (\<Sum>v\<in>set q. - ln (p v) * real (count_list q v))"
proof -
  assume xs: "xs \<noteq> []" and q: "q \<noteq> []" and m: "MultinomialMdl_init (Arr1 xs) = Inr m"
  define P where "P = (\<lambda>a. real (count_list xs a) / real (length xs))"
  have "\<forall>v. \<exists>a. a \<in> set xs \<and> uval_mdl m True (uniform_fallback q) v = Inr (Fin (- ln (P a)))"
    using uval_mdl_adjacent [OF m xs] unfolding P_def by blast
  then obtain f where f: "\<And>v. f v \<in> set xs"
    "\<And>v. uval_mdl m True (uniform_fallback q) v = Inr (Fin (- ln (P (f v))))"
    by metis
  have n: "mn_n m \<noteq> 0" and ps: "set (mn_uniq_val_ps m) = P ` set xs"
    using m xs by (auto simp: MultinomialMdl_init_Arr1 P_def)
  have bounds: "P (f v) \<in> set (mn_uniq_val_ps m) \<and> 0 < P (f v) \<and> P (f v) \<le> 1" for v
    using f(1) [of v] fitted_p_pos [of "f v" xs] fitted_p_le_one [of xs "f v"]
    unfolding ps P_def by blast
  have enc: "encode m (Arr1 q) True
        = Inr (Fin (\<Sum>v\<in>set q. - ln (P (f v)) * real (count_list q v)))"
    using q n f(2) by (intro encode_costs) simp_all
  have "0 \<le> (\<Sum>v\<in>set q. - ln (P (f v)) * real (count_list q v))"
    using bounds by (intro sum_nonneg mult_nonneg_nonneg) simp_all
  with bounds enc show ?thesis
    by (intro exI [of _ "\<lambda>v. P (f v)"]) simp
qed

theorem adjacent_encode_finite_witness:
  "[1, 1, 2] \<noteq> ([] :: real list) \<and> [0, 0] \<noteq> ([] :: real list)
   \<and> uniform_fallback [0, 0] = NInf
   \<and> (\<exists>m. MultinomialMdl_init (Arr1 [1, 1, 2]) = Inr m
        \<and> (\<exists>p. (\<forall>v\<in>set [0, 0 :: real]. p v \<in> set (mn_uniq_val_ps m) \<and> 0 < p v \<and> p v \<le> 1)
              \<and> encode m (Arr1 [0, 0]) True
                   = Inr (Fin (\<Sum>v\<in>set [0, 0 :: real]. - ln (p v) * real (count_list [0, 0 :: real] v)))
              \<and> 0 \<le> (\<Sum>v\<in>set [0, 0 :: real]. - ln (p v) * real (count_list [0, 0 :: real] v))))"
proof -
  obtain m where m: "MultinomialMdl_init (Arr1 [1, 1, 2]) = Inr m"
    by (simp add: MultinomialMdl_init_Arr1)
  have u: "uniform_fallback [0, 0] = NInf"
    by (simp add: uniform_fallback_def np_log_def)
  have ne: "[1, 1, 2] \<noteq> ([] :: real list)" "[0, 0] \<noteq> ([] :: real list)" by simp_all
  note r = adjacent_encode_finite [OF ne m]
  show ?thesis
    by (intro conjI exI [of _ m]) (rule ne u m r)+
qed

text \<open>
  Claim C7, as amended. The self-cost of \<open>MultinomialMdl\<close> is a non-negative real for every
  input vector, and so is the zero-indicator cost of \<open>ZeroIGKdeMdl\<close>. The cost of
  \<open>GKdeMdl\<close> is a non-negative real when the array is empty or the density fit fails, and
  the total cost of \<open>ZeroIGKdeMdl\<close> when that holds of its non-zero entries. The value of
  \<open>MultinomialMdl.encode\<close> is a non-negative real when the query is empty, or the model
  has \<open>n > 0\<close> and either adjacent values are used or every query value occurs in the
  sample, or the largest magnitude in the query is at least \<open>1/2\<close>.
\<close>

theorem description_length_nonneg:
  "(\<exists>m. MultinomialMdl_init (Arr1 xs) = Inr m \<and> nonneg_real (mn_mdl m)
       \<and> ((q = [] \<or> (xs \<noteq> [] \<and> (adj \<or> set q \<subseteq> set xs)) \<or> 1 / 2 \<le> Max (abs ` set q))
            \<longrightarrow> (\<exists>r. encode m (Arr1 q) adj = Inr (Fin r) \<and> 0 \<le> r)))
   \<and> (\<exists>z. ZeroIGKdeMdl_init P (Arr1 xs) bw = Inr z \<and> nonneg_real (z_zi_mdl z)
       \<and> ((filter (\<lambda>v. v \<noteq> 0) xs = []
             \<or> (\<exists>e. gaussian_kde_logdens P (Arr1 (filter (\<lambda>v. v \<noteq> 0) xs)) bw True = Inl e))
            \<longrightarrow> nonneg_real (z_mdl z)))
   \<and> ((xs = [] \<or> (\<exists>e. gaussian_kde_logdens P (Arr1 xs) bw True = Inl e))
        \<longrightarrow> (\<exists>g. GKdeMdl_init P (Arr1 xs) bw = Inr g \<and> nonneg_real (gk_mdl g)))"
proof (intro conjI)
  obtain m where m: "MultinomialMdl_init (Arr1 xs) = Inr m"
    and mdl: "mn_mdl m = Fin (multinomial_self_cost_spec xs)"
    by (simp add: MultinomialMdl_init_Arr1)
  have "nonneg_real (mn_mdl m)" by (simp add: mdl multinomial_self_cost_nonneg)
  with m show "\<exists>m. MultinomialMdl_init (Arr1 xs) = Inr m \<and> nonneg_real (mn_mdl m)
       \<and> ((q = [] \<or> (xs \<noteq> [] \<and> (adj \<or> set q \<subseteq> set xs)) \<or> 1 / 2 \<le> Max (abs ` set q))
            \<longrightarrow> (\<exists>r. encode m (Arr1 q) adj = Inr (Fin r) \<and> 0 \<le> r))"
    using encode_nonneg [OF m, of q adj] by blast
next
  let ?nz = "filter (\<lambda>v. v \<noteq> 0) xs"
  obtain g where g: "GKdeMdl_init P (Arr1 ?nz) bw = Inr g"
    using GKdeMdl_init_total [of P ?nz bw] by (elim exE)
  define z where "z = \<lparr> z_x = xs, z_n = length xs, z_x_nonzero = ?nz, z_k = length ?nz,
      z_bw_method = bw, z_zi_mdl = compute_zero_indicator_mdl (length xs) (length ?nz),
      z_kde_mdl_obj = g, z_kde_mdl = gk_mdl g,
      z_mdl = compute_zero_indicator_mdl (length xs) (length ?nz) + gk_mdl g \<rparr>"
  have init: "ZeroIGKdeMdl_init P (Arr1 xs) bw = Inr z"
    using g by (simp add: ZeroIGKdeMdl_init_def Let_def z_def)
  have kn: "length ?nz \<le> length xs" by simp
  have zi: "z_zi_mdl z = Fin (zero_indicator_cost_spec (length xs) (length ?nz))"
    by (simp add: z_def zi_spec [OF kn])
  have zi_nonneg: "nonneg_real (z_zi_mdl z)"
    by (simp add: zi zero_indicator_cost_nonneg [OF kn])
  have total: "nonneg_real (z_mdl z)"
    if "?nz = [] \<or> (\<exists>e. gaussian_kde_logdens P (Arr1 ?nz) bw True = Inl e)"
  proof -
    from GKdeMdl_fallback_mdl [OF that] g
    have "gk_mdl g = Fin (multinomial_self_cost_spec (quantize ?nz))" by simp
    then have "z_mdl z = Fin (zero_indicator_cost_spec (length xs) (length ?nz)
                 + multinomial_self_cost_spec (quantize ?nz))"
      by (simp add: z_def zi_spec [OF kn])
    then show ?thesis
      using zero_indicator_cost_nonneg [OF kn] multinomial_self_cost_nonneg [of "quantize ?nz"]
      by simp
  qed
  from init zi_nonneg total
  show "\<exists>z. ZeroIGKdeMdl_init P (Arr1 xs) bw = Inr z \<and> nonneg_real (z_zi_mdl z)
       \<and> ((?nz = [] \<or> (\<exists>e. gaussian_kde_logdens P (Arr1 ?nz) bw True = Inl e))
            \<longrightarrow> nonneg_real (z_mdl z))"
    by blast
next
  show "(xs = [] \<or> (\<exists>e. gaussian_kde_logdens P (Arr1 xs) bw True = Inl e))
        \<longrightarrow> (\<exists>g. GKdeMdl_init P (Arr1 xs) bw = Inr g \<and> nonneg_real (gk_mdl g))"
  proof
    assume "xs = [] \<or> (\<exists>e. gaussian_kde_logdens P (Arr1 xs) bw True = Inl e)"
    from GKdeMdl_fallback_mdl [OF this] obtain g where
      "GKdeMdl_init P (Arr1 xs) bw = Inr g"
      "gk_mdl g = Fin (multinomial_self_cost_spec (quantize xs))" by blast
    then show "\<exists>g. GKdeMdl_init P (Arr1 xs) bw = Inr g \<and> nonneg_real (gk_mdl g)"
      using multinomial_self_cost_nonneg [of "quantize xs"] by simp
  qed
qed

theorem description_length_nonneg_witness:
  "1 / 2 \<le> Max (abs ` set [2, 5 :: real])
   \<and> gaussian_kde_logdens (\<lambda>d b. Inl EstimationFailure) (Arr1 [2, 2]) ''silverman'' True
        = Inl EstimationFailure
   \<and> gaussian_kde_logdens (\<lambda>d b. Inl EstimationFailure) (Arr1 [0, 2, 2]) ''silverman'' True
        = Inl EstimationFailure
   \<and> (\<exists>m. MultinomialMdl_init (Arr1 [0, 2, 2]) = Inr m \<and> nonneg_real (mn_mdl m)
        \<and> (\<exists>r. encode m (Arr1 [2, 5]) False = Inr (Fin r) \<and> 0 \<le> r))
   \<and> (\<exists>z. ZeroIGKdeMdl_init (\<lambda>d b. Inl EstimationFailure) (Arr1 [0, 2, 2]) ''silverman'' = Inr z
        \<and> nonneg_real (z_zi_mdl z) \<and> nonneg_real (z_mdl z))
   \<and> (\<exists>g. GKdeMdl_init (\<lambda>d b. Inl EstimationFailure) (Arr1 [0, 2, 2]) ''silverman'' = Inr g
        \<and> nonneg_real (gk_mdl g))"
  using description_length_nonneg [of "[0, 2, 2]" "[2, 5]" False
      "\<lambda>d b. Inl EstimationFailure" "''silverman''"]
  by (simp add: gaussian_kde_logdens_def)

text \<open>
  Claim C7 as first stated has \<open>encode\<close> non-negative for every query. A model fitted to
  \<open>[1]\<close> and queried with \<open>[1/4]\<close> charges the absent value the uniform fallback
  \<open>log(1/4 * 2) = log(1/2)\<close>, which is negative.
\<close>

theorem encode_negative_counterexample:
  "fit_encode (Arr1 [1]) (Arr1 [1 / 4]) False = Inr (Fin (ln (1 / 2)))
   \<and> \<not> nonneg_real (Fin (ln (1 / 2)))"
  by (simp add: fit_encode_def MultinomialMdl_init_Arr1 encode_def np_unique_eq uval_mdl_def
      np_max_def np_log_def zero_npfloat_def)

text \<open>
  Two more values outside the non-negative reals: an all-zero query of absent values costs
  \<open>-inf\<close>, and a successful density fit with densities above \<open>1\<close> at the training points
  (data in a narrow range) gives \<open>GKdeMdl\<close> a negative cost.
\<close>

lemma encode_all_zero_query: "fit_encode (Arr1 [1]) (Arr1 [0, 0]) False = Inr NInf"
  by (simp add: fit_encode_def MultinomialMdl_init_Arr1 encode_def np_unique_eq uval_mdl_def
      np_max_def np_log_def zero_npfloat_def)

lemma gkde_negative_cost:
  "\<exists>g. GKdeMdl_init (\<lambda>d b. Inr \<lparr> kde_factor = 1, kde_evaluate = (\<lambda>pts. Inr [4, 4]) \<rparr>)
          (Arr1 [0, 1 / 1000]) ''silverman'' = Inr g
     \<and> gk_mdl g = Fin (- (ln 4 + ln 4) + ln 2) \<and> \<not> nonneg_real (gk_mdl g)"
proof -
  have "ln (2 :: real) < ln 4" by simp
  then have "- (ln 4 + ln 4) + ln (2 :: real) < 0" using ln_gt_zero [of "4 :: real"] by linarith
  then show ?thesis
    by (simp add: GKdeMdl_init_def GKdeMdl_kde_mdl_def gaussian_kde_logdens_Arr1 np_log_def
        zero_npfloat_def not_le)
qed

subsection \<open>The caller and the fitted sample\<close>

lemma setitem_other: "b \<noteq> a \<Longrightarrow> setitem s a i v ! b = s ! b"
  by (simp add: setitem_def split: ndarray.splits)

lemma length_setitem [simp]: "length (setitem s a i v) = length s"
  by (simp add: setitem_def split: ndarray.splits)

text \<open>
  A \<open>MultinomialMdl\<close> keeps an array of its own: no array the caller had before the
  construction is the object's sample. The accessors hand out new arrays, and writing
  into those leaves the samples as they were. \<open>encode\<close> returns the object it was given
  and changes no array that existed before the call.
\<close>

lemma MultinomialMdl_new_fresh:
  assumes "MultinomialMdl_new s x = Inr (s1, obj)"
  shows "mo_x obj = length s" "length s1 = Suc (length s)"
    "\<And>a. a < length s \<Longrightarrow> setitem s1 a i v ! mo_x obj = s1 ! mo_x obj"
    "s ! x = Arr1 xs \<Longrightarrow> s1 ! mo_x obj = Arr1 xs"
  using assms
  by (auto simp: MultinomialMdl_new_def alloc_def MultinomialMdl_init_def Let_def setitem_other
      split: sum.splits prod.splits ndarray.splits)

lemma Mdl_x_copy:
  assumes "Mdl_x s obj = (s', r)" "mo_x obj < length s"
  shows "r \<noteq> mo_x obj" "s' ! r = s ! mo_x obj" "s' ! mo_x obj = s ! mo_x obj"
    "setitem s' r i v ! mo_x obj = s ! mo_x obj"
  using assms by (auto simp: Mdl_x_def alloc_def nth_append setitem_other)

lemma GKdeMdl_x_copy:
  assumes "GKdeMdl_x s obj = (s', r)" "go_x obj < length s"
  shows "r \<noteq> go_x obj" "s' ! r = s ! go_x obj" "s' ! go_x obj = s ! go_x obj"
    "setitem s' r i v ! go_x obj = s ! go_x obj"
  using assms by (auto simp: GKdeMdl_x_def alloc_def nth_append setitem_other)

lemma ZeroIGKdeMdl_x_copy:
  assumes "ZeroIGKdeMdl_x s obj = (s', r)" "zo_x obj < length s" "zo_x_nonzero obj < length s"
  shows "r \<noteq> zo_x obj" "s' ! r = s ! zo_x obj"
    "setitem s' r i v ! zo_x obj = s ! zo_x obj"
    "setitem s' r i v ! zo_x_nonzero obj = s ! zo_x_nonzero obj"
  using assms by (auto simp: ZeroIGKdeMdl_x_def alloc_def nth_append setitem_other)

lemma ZeroIGKdeMdl_x_nonzero_copy:
  assumes "ZeroIGKdeMdl_x_nonzero s obj = (s', r)" "zo_x obj < length s" "zo_x_nonzero obj < length s"
  shows "r \<noteq> zo_x_nonzero obj" "s' ! r = s ! zo_x_nonzero obj"
    "setitem s' r i v ! zo_x obj = s ! zo_x obj"
    "setitem s' r i v ! zo_x_nonzero obj = s ! zo_x_nonzero obj"
  using assms by (auto simp: ZeroIGKdeMdl_x_nonzero_def alloc_def nth_append setitem_other)

lemma encode_at_frame:
  assumes "encode_at s obj qx adj = Inr (s', obj', r)" "mo_x obj < length s"
  shows "obj' = obj" "s' ! mo_x obj = s ! mo_x obj"
    "\<And>a. a < length s \<Longrightarrow> s' ! a = s ! a"
  using assms
  by (auto simp: encode_at_def alloc_def nth_append split: sum.splits prod.splits if_splits)

text \<open>
  Claim C9 says that the fitted state of every encoder is beyond the caller's reach after
  construction. The accessors do return copies and \<open>encode\<close> changes nothing, but the
  constructors of \<open>GKdeMdl\<close> and \<open>ZeroIGKdeMdl\<close> keep the caller's own array as their
  sample: a caller that passes the array \<open>[1, 2, 4]\<close> and afterwards sets its first entry
  to \<open>100\<close> reads \<open>[100, 2, 4]\<close> from the accessor \<open>x\<close> of either object.
  \<open>MultinomialMdl\<close>, whose constructor copies, still returns \<open>[1, 2, 4]\<close>.
\<close>

theorem input_array_shared:
  "(\<exists>s1 obj. GKdeMdl_new P [Arr1 [1, 2, 4]] 0 bw = Inr (s1, obj)
       \<and> s1 ! go_x obj = Arr1 [1, 2, 4]
       \<and> (case GKdeMdl_x (setitem s1 0 0 100) obj of (s3, r) \<Rightarrow> s3 ! r = Arr1 [100, 2, 4]))
   \<and> (\<exists>s1 obj. ZeroIGKdeMdl_new P [Arr1 [1, 2, 4]] 0 bw = Inr (s1, obj)
       \<and> s1 ! zo_x obj = Arr1 [1, 2, 4]
       \<and> (case ZeroIGKdeMdl_x (setitem s1 0 0 100) obj of (s3, r) \<Rightarrow> s3 ! r = Arr1 [100, 2, 4]))
   \<and> (\<exists>s1 obj. MultinomialMdl_new [Arr1 [1, 2, 4]] 0 = Inr (s1, obj)
       \<and> s1 ! mo_x obj = Arr1 [1, 2, 4]
       \<and> (case Mdl_x (setitem s1 0 0 100) obj of (s3, r) \<Rightarrow> s3 ! r = Arr1 [1, 2, 4]))"
proof (intro conjI)
  obtain g where g: "GKdeMdl_init P (Arr1 [1, 2, 4]) bw = Inr g"
    using GKdeMdl_init_total [of P "[1, 2, 4]" bw] by (elim exE)
  then show "\<exists>s1 obj. GKdeMdl_new P [Arr1 [1, 2, 4]] 0 bw = Inr (s1, obj)
       \<and> s1 ! go_x obj = Arr1 [1, 2, 4]
       \<and> (case GKdeMdl_x (setitem s1 0 0 100) obj of (s3, r) \<Rightarrow> s3 ! r = Arr1 [100, 2, 4])"
    by (simp add: GKdeMdl_new_def GKdeMdl_x_def alloc_def setitem_def)
next
  obtain g where g: "GKdeMdl_init P (Arr1 (filter (\<lambda>v. v \<noteq> 0) [1, 2, 4])) bw = Inr g"
    using GKdeMdl_init_total [of P "filter (\<lambda>v. v \<noteq> 0) [1, 2, 4]" bw] by (elim exE)
  then show "\<exists>s1 obj. ZeroIGKdeMdl_new P [Arr1 [1, 2, 4]] 0 bw = Inr (s1, obj)
       \<and> s1 ! zo_x obj = Arr1 [1, 2, 4]
       \<and> (case ZeroIGKdeMdl_x (setitem s1 0 0 100) obj of (s3, r) \<Rightarrow> s3 ! r = Arr1 [100, 2, 4])"
    by (simp add: ZeroIGKdeMdl_new_def ZeroIGKdeMdl_init_def ZeroIGKdeMdl_x_def alloc_def
        setitem_def Let_def)
next
  show "\<exists>s1 obj. MultinomialMdl_new [Arr1 [1, 2, 4]] 0 = Inr (s1, obj)
       \<and> s1 ! mo_x obj = Arr1 [1, 2, 4]
       \<and> (case Mdl_x (setitem s1 0 0 100) obj of (s3, r) \<Rightarrow> s3 ! r = Arr1 [1, 2, 4])"
    by (simp add: MultinomialMdl_new_def MultinomialMdl_init_Arr1 Mdl_x_def alloc_def
        setitem_def)
qed

text \<open>
  The bandwidth of \<open>GKdeMdl\<close> is computed from the shared array at each call, so it
  follows the caller's writes while the cost stays as fitted.
\<close>

lemma gkde_bandwidth_follows_callers_array:
  "\<exists>s1 obj.
     GKdeMdl_new (\<lambda>d b. Inr \<lparr> kde_factor = 1, kde_evaluate = (\<lambda>pts. Inr [1 / 4, 1 / 4]) \<rparr>)
        [Arr1 [1, 3]] 0 ''silverman'' = Inr (s1, obj)
     \<and> GKdeMdl_bandwidth_at s1 obj = Some (Fin (sqrt 2))
     \<and> GKdeMdl_bandwidth_at (setitem s1 0 0 3) obj = Some (Fin 0)"
  by (simp add: GKdeMdl_new_def GKdeMdl_init_def GKdeMdl_kde_mdl_def gaussian_kde_logdens_Arr1
      GKdeMdl_bandwidth_at_def np_std_ddof1_def setitem_def power2_eq_square)

end
